theory Spec2Isabelle
  imports Complex_Main "HOL-Library.Log_Nat"
begin

section \<open>JavaScript numbers\<close>

text \<open>
  The component \<^verbatim>\<open>BTUCalculator.jsx\<close> computes with JavaScript numbers. A number is
  modelled as a real, one of the two infinities, or NaN. The operations of this section
  follow the ECMAScript rules for the special values (NaN is contagious,
  \<open>Infinity - Infinity\<close> and \<open>0 * Infinity\<close> are NaN, every comparison with NaN is false)
  and are exact on finite values; the rounding and the overflow of binary64 are added in a
  section of their own, and what depends on them is stated there. The sign of zero is not
  represented.
\<close>

datatype jsnum = Fin real | PInf | NInf | NaN

fun js_neg :: "jsnum \<Rightarrow> jsnum" where
  "js_neg (Fin a) = Fin (- a)"
| "js_neg PInf = NInf"
| "js_neg NInf = PInf"
| "js_neg NaN = NaN"

fun js_add :: "jsnum \<Rightarrow> jsnum \<Rightarrow> jsnum" where
  "js_add (Fin a) (Fin b) = Fin (a + b)"
| "js_add NaN y = NaN"
| "js_add x NaN = NaN"
| "js_add PInf NInf = NaN"
| "js_add NInf PInf = NaN"
| "js_add PInf y = PInf"
| "js_add x PInf = PInf"
| "js_add NInf y = NInf"
| "js_add x NInf = NInf"

fun js_sub :: "jsnum \<Rightarrow> jsnum \<Rightarrow> jsnum" where
  "js_sub (Fin a) (Fin b) = Fin (a - b)"
| "js_sub NaN y = NaN"
| "js_sub x NaN = NaN"
| "js_sub PInf PInf = NaN"
| "js_sub NInf NInf = NaN"
| "js_sub PInf y = PInf"
| "js_sub x PInf = NInf"
| "js_sub NInf y = NInf"
| "js_sub x NInf = PInf"

definition inf_of_sign :: "real \<Rightarrow> jsnum" where
  "inf_of_sign a = (if a = 0 then NaN else if 0 < a then PInf else NInf)"

fun js_mul :: "jsnum \<Rightarrow> jsnum \<Rightarrow> jsnum" where
  "js_mul (Fin a) (Fin b) = Fin (a * b)"
| "js_mul NaN y = NaN"
| "js_mul x NaN = NaN"
| "js_mul (Fin a) PInf = inf_of_sign a"
| "js_mul (Fin a) NInf = inf_of_sign (- a)"
| "js_mul PInf (Fin b) = inf_of_sign b"
| "js_mul NInf (Fin b) = inf_of_sign (- b)"
| "js_mul PInf PInf = PInf"
| "js_mul PInf NInf = NInf"
| "js_mul NInf PInf = NInf"
| "js_mul NInf NInf = PInf"

text \<open>The relational operators \<^verbatim>\<open>x > y\<close> and \<^verbatim>\<open>x < y\<close>.\<close>

fun js_gt :: "jsnum \<Rightarrow> jsnum \<Rightarrow> bool" where
  "js_gt (Fin a) (Fin b) = (b < a)"
| "js_gt NaN y = False"
| "js_gt x NaN = False"
| "js_gt PInf PInf = False"
| "js_gt PInf y = True"
| "js_gt x PInf = False"
| "js_gt NInf y = False"
| "js_gt x NInf = True"

definition js_lt :: "jsnum \<Rightarrow> jsnum \<Rightarrow> bool" where
  "js_lt x y = js_gt y x"

text \<open>\<^verbatim>\<open>ToBoolean\<close> on a number: zero and NaN are falsy.\<close>

fun js_truthy :: "jsnum \<Rightarrow> bool" where
  "js_truthy (Fin a) = (a \<noteq> 0)"
| "js_truthy PInf = True"
| "js_truthy NInf = True"
| "js_truthy NaN = False"

text \<open>The operator \<^verbatim>\<open>x || y\<close> on numbers.\<close>

definition js_or :: "jsnum \<Rightarrow> jsnum \<Rightarrow> jsnum" where
  "js_or x y = (if js_truthy x then x else y)"

text \<open>\<^verbatim>\<open>Math.max\<close> of two numbers and \<^verbatim>\<open>Math.round\<close>.\<close>

fun Math_max :: "jsnum \<Rightarrow> jsnum \<Rightarrow> jsnum" where
  "Math_max (Fin a) (Fin b) = Fin (max a b)"
| "Math_max NaN y = NaN"
| "Math_max x NaN = NaN"
| "Math_max PInf y = PInf"
| "Math_max x PInf = PInf"
| "Math_max NInf y = y"
| "Math_max x NInf = x"

fun Math_round :: "jsnum \<Rightarrow> jsnum" where
  "Math_round (Fin a) = Fin (of_int \<lfloor>a + 1 / 2\<rfloor>)"
| "Math_round x = x"

section \<open>Text to number: \<^verbatim>\<open>parseFloat\<close> and the implicit conversion\<close>

text \<open>
  The text fields of the component hold strings. The estimator converts them with
  \<^verbatim>\<open>parseFloat\<close>; the breakdown in the markup uses them directly as operands of
  \<^verbatim>\<open>*\<close> and \<^verbatim>\<open>-\<close>, which converts them with \<^verbatim>\<open>ToNumber\<close>. Both are
  modelled after the ECMAScript grammar \<^verbatim>\<open>StrDecimalLiteral\<close>, on strings of
  one-byte code units.
\<close>

definition StrWhiteSpaceChar :: "char \<Rightarrow> bool" where
  "StrWhiteSpaceChar c =
     (c \<in> {CHR 0x09, CHR 0x0A, CHR 0x0B, CHR 0x0C, CHR 0x0D, CHR 0x20, CHR 0xA0})"

definition is_digit :: "char \<Rightarrow> bool" where
  "is_digit c = (c \<in> set ''0123456789'')"

definition digit_val :: "char \<Rightarrow> nat" where
  "digit_val c = of_char c - 48"

definition digits_val :: "string \<Rightarrow> nat" where
  "digits_val ds = foldl (\<lambda>a c. 10 * a + digit_val c) 0 ds"

text \<open>The value \<open>m \<times> 10\<^sup>e\<close> of a mantissa and a decimal exponent.\<close>

definition scale10 :: "nat \<Rightarrow> int \<Rightarrow> real" where
  "scale10 m e = (if 0 \<le> e then real m * 10 ^ nat e else real m / 10 ^ nat (- e))"

text \<open>
  \<^verbatim>\<open>SignedInteger\<close>: digits with an optional sign; the value and the rest of the
  text, or nothing when no digit follows.
\<close>

definition SignedInteger :: "string \<Rightarrow> (int \<times> string) option" where
  "SignedInteger s =
     (let (neg, r) = (case s of
                        c # r \<Rightarrow> if c = CHR ''-'' then (True, r)
                                 else if c = CHR ''+'' then (False, r) else (False, s)
                      | [] \<Rightarrow> (False, s));
          ds = takeWhile is_digit r
      in if ds = [] then None
         else Some (if neg then - int (digits_val ds) else int (digits_val ds),
                    dropWhile is_digit r))"

text \<open>
  \<^verbatim>\<open>ExponentPart\<close>, optional: the exponent and the rest of the text. An \<^verbatim>\<open>e\<close>
  that no integer follows is not part of the literal.
\<close>

definition ExponentPart :: "string \<Rightarrow> int \<times> string" where
  "ExponentPart s =
     (case s of
        c # r \<Rightarrow>
          if c = CHR ''e'' \<or> c = CHR ''E''
          then (case SignedInteger r of Some (e, r') \<Rightarrow> (e, r') | None \<Rightarrow> (0, s))
          else (0, s)
      | [] \<Rightarrow> (0, s))"

text \<open>
  \<^verbatim>\<open>StrUnsignedDecimalLiteral\<close>: the longest prefix of the text that is
  \<^verbatim>\<open>Infinity\<close>, or digits with an optional fraction and exponent, or a dot, digits
  and an optional exponent. The result is its value and the rest of the text.
\<close>

definition StrUnsignedDecimalLiteral :: "string \<Rightarrow> (jsnum \<times> string) option" where
  "StrUnsignedDecimalLiteral s =
     (if take 8 s = ''Infinity'' then Some (PInf, drop 8 s)
      else
        let ip = takeWhile is_digit s;
            r1 = dropWhile is_digit s;
            (fp, r2) = (case r1 of
                          c # r \<Rightarrow> if c = CHR ''.''
                                   then (takeWhile is_digit r, dropWhile is_digit r)
                                   else ([], r1)
                        | [] \<Rightarrow> ([], r1))
        in if ip = [] \<and> fp = [] then None
           else let (e, r3) = ExponentPart r2
                in Some (Fin (scale10 (digits_val (ip @ fp)) (e - int (length fp))), r3))"

definition StrDecimalLiteral :: "string \<Rightarrow> (jsnum \<times> string) option" where
  "StrDecimalLiteral s =
     (case s of
        c # r \<Rightarrow>
          if c = CHR ''-''
          then map_option (\<lambda>(v, r'). (js_neg v, r')) (StrUnsignedDecimalLiteral r)
          else if c = CHR ''+'' then StrUnsignedDecimalLiteral r
          else StrUnsignedDecimalLiteral s
      | [] \<Rightarrow> None)"

text \<open>
  \<^verbatim>\<open>parseFloat\<close>: leading white space is dropped, the longest prefix that is a
  decimal literal is converted and whatever follows it is ignored; NaN when there is no
  such prefix.
\<close>

definition parseFloat :: "string \<Rightarrow> jsnum" where
  "parseFloat s =
     (case StrDecimalLiteral (dropWhile StrWhiteSpaceChar s) of
        None \<Rightarrow> NaN
      | Some (v, r) \<Rightarrow> v)"

text \<open>
  \<^verbatim>\<open>NonDecimalIntegerLiteral\<close>: \<^verbatim>\<open>0x\<close>, \<^verbatim>\<open>0o\<close> and \<^verbatim>\<open>0b\<close> literals, which
  \<^verbatim>\<open>ToNumber\<close> accepts and \<^verbatim>\<open>parseFloat\<close> does not.
\<close>

definition radix_digit :: "char \<Rightarrow> nat option" where
  "radix_digit c =
     (let n = (of_char c :: nat)
      in if 48 \<le> n \<and> n \<le> 57 then Some (n - 48)
         else if 97 \<le> n \<and> n \<le> 102 then Some (n - 87)
         else if 65 \<le> n \<and> n \<le> 70 then Some (n - 55)
         else None)"

definition radix_val :: "nat \<Rightarrow> string \<Rightarrow> nat option" where
  "radix_val b ds =
     (if ds \<noteq> [] \<and> list_all (\<lambda>c. case radix_digit c of Some d \<Rightarrow> d < b | None \<Rightarrow> False) ds
      then Some (foldl (\<lambda>a c. b * a + the (radix_digit c)) 0 ds)
      else None)"

definition NonDecimalIntegerLiteral :: "string \<Rightarrow> jsnum option" where
  "NonDecimalIntegerLiteral s =
     (case s of
        z # x # ds \<Rightarrow>
          if z \<noteq> CHR ''0'' then None
          else if x = CHR ''x'' \<or> x = CHR ''X'' then map_option (\<lambda>n. Fin (real n)) (radix_val 16 ds)
          else if x = CHR ''o'' \<or> x = CHR ''O'' then map_option (\<lambda>n. Fin (real n)) (radix_val 8 ds)
          else if x = CHR ''b'' \<or> x = CHR ''B'' then map_option (\<lambda>n. Fin (real n)) (radix_val 2 ds)
          else None
      | _ \<Rightarrow> None)"

text \<open>
  \<^verbatim>\<open>ToNumber\<close> on a string: white space is dropped at both ends; the empty text is
  0; otherwise the whole text has to be one literal, or the result is NaN.
\<close>

definition ToNumber :: "string \<Rightarrow> jsnum" where
  "ToNumber s =
     (let t = rev (dropWhile StrWhiteSpaceChar (rev (dropWhile StrWhiteSpaceChar s)))
      in if t = [] then Fin 0
         else case NonDecimalIntegerLiteral t of
                Some v \<Rightarrow> v
              | None \<Rightarrow> (case StrDecimalLiteral t of
                           Some (v, r) \<Rightarrow> if r = [] then v else NaN
                         | None \<Rightarrow> NaN))"

section \<open>The component\<close>

text \<open>
  The state of \<^verbatim>\<open>BTUCalculator\<close>: the five \<^verbatim>\<open>useState\<close> cells. The three text
  fields and the selector hold strings, \<^verbatim>\<open>totalBTU\<close> a number.
\<close>

record component =
  area :: string
  occupants :: string
  height :: string
  sunExposure :: string
  totalBTU :: jsnum

definition initial :: component where
  "initial = \<lparr>area = '''', occupants = '''', height = '''', sunExposure = ''average'',
              totalBTU = Fin 0\<rparr>"

subsection \<open>\<^verbatim>\<open>calculateBTU\<close>\<close>

text \<open>Lines 17 to 19: \<^verbatim>\<open>parseFloat(text) || 0\<close>.\<close>

definition areaVal :: "component \<Rightarrow> jsnum" where
  "areaVal st = js_or (parseFloat (area st)) (Fin 0)"

definition occupantsVal :: "component \<Rightarrow> jsnum" where
  "occupantsVal st = js_or (parseFloat (occupants st)) (Fin 0)"

definition heightVal :: "component \<Rightarrow> jsnum" where
  "heightVal st = js_or (parseFloat (height st)) (Fin 0)"

text \<open>Line 22.\<close>

definition baseBTU :: "jsnum \<Rightarrow> jsnum" where
  "baseBTU a = js_mul a (Fin 25)"

text \<open>Lines 26 to 29.\<close>

definition occupancyBTU :: "jsnum \<Rightarrow> jsnum" where
  "occupancyBTU oc = (if js_gt oc (Fin 2) then js_mul (js_sub oc (Fin 2)) (Fin 600) else Fin 0)"

text \<open>Lines 33 to 36.\<close>

definition heightBTU :: "jsnum \<Rightarrow> jsnum" where
  "heightBTU h = (if js_gt h (Fin 8) then js_mul (js_sub h (Fin 8)) (Fin 1000) else Fin 0)"

text \<open>Lines 46 to 53: the chain of comparisons on the selector's string, from the base.\<close>

definition sunBTU :: "string \<Rightarrow> jsnum \<Rightarrow> jsnum" where
  "sunBTU e b =
     (if e = ''shady'' then js_neg (js_mul b (Fin (1 / 10)))
      else if e = ''sunny'' then js_mul b (Fin (1 / 10))
      else if e = ''very_sunny'' then js_mul b (Fin (2 / 10))
      else Fin 0)"

text \<open>Line 56: the argument of \<^verbatim>\<open>setTotalBTU\<close>, from the three parsed values.\<close>

definition total_value :: "jsnum \<Rightarrow> jsnum \<Rightarrow> jsnum \<Rightarrow> string \<Rightarrow> jsnum" where
  "total_value a oc h e =
     js_add (js_add (js_add (baseBTU a) (occupancyBTU oc)) (heightBTU h)) (sunBTU e (baseBTU a))"

text \<open>
  The function reads the four input cells and writes \<^verbatim>\<open>totalBTU\<close>. It has no
  \<^verbatim>\<open>throw\<close> and calls nothing that throws on a string or a number, so it always
  returns.
\<close>

definition calculateBTU :: "component \<Rightarrow> component" where
  "calculateBTU st =
     st\<lparr>totalBTU := total_value (areaVal st) (occupantsVal st) (heightVal st) (sunExposure st)\<rparr>"

subsection \<open>The markup\<close>

text \<open>
  Lines 114 to 132. Each displayed number is \<^verbatim>\<open>Math.round\<close> of an expression; the
  expressions of the breakdown are written out in the markup, on the text fields.
\<close>

definition render_base :: "component \<Rightarrow> jsnum" where
  "render_base st = js_or (js_mul (ToNumber (area st)) (Fin 25)) (Fin 0)"

definition render_occupancy :: "component \<Rightarrow> jsnum" where
  "render_occupancy st =
     js_or (Math_max (Fin 0) (js_mul (js_sub (ToNumber (occupants st)) (Fin 2)) (Fin 600))) (Fin 0)"

definition render_height :: "component \<Rightarrow> jsnum" where
  "render_height st =
     js_or (Math_max (Fin 0) (js_mul (js_sub (ToNumber (height st)) (Fin 8)) (Fin 1000))) (Fin 0)"

definition render_climate :: "component \<Rightarrow> jsnum" where
  "render_climate st =
     js_or (if sunExposure st = ''shady''
            then js_neg (js_mul (js_mul (ToNumber (area st)) (Fin 25)) (Fin (1 / 10)))
            else if sunExposure st = ''sunny''
            then js_mul (js_mul (ToNumber (area st)) (Fin 25)) (Fin (1 / 10))
            else if sunExposure st = ''very_sunny''
            then js_mul (js_mul (ToNumber (area st)) (Fin 25)) (Fin (2 / 10))
            else Fin 0) (Fin 0)"

definition shown_total :: "component \<Rightarrow> jsnum" where
  "shown_total st = Math_round (totalBTU st)"

definition shown_breakdown :: "component \<Rightarrow> jsnum \<times> jsnum \<times> jsnum \<times> jsnum" where
  "shown_breakdown st =
     (Math_round (render_base st), Math_round (render_occupancy st),
      Math_round (render_height st), Math_round (render_climate st))"

text \<open>The options of the selector, lines 104 to 107.\<close>

definition exposure_options :: "string list" where
  "exposure_options = [''shady'', ''average'', ''sunny'', ''very_sunny'']"

section \<open>Classes of text\<close>

text \<open>
  A text has no leading numeral when \<^verbatim>\<open>parseFloat\<close> finds nothing to convert in it:
  after the leading white space and an optional sign it does not begin with a digit, with a
  dot and a digit, or with \<^verbatim>\<open>Infinity\<close>. The empty text and \<^verbatim>\<open>abc\<close> are such
  texts; \<^verbatim>\<open>5px\<close> is not.
\<close>

definition starts_numeral :: "string \<Rightarrow> bool" where
  "starts_numeral u =
     (take 8 u = ''Infinity''
      \<or> (case u of
            c # r \<Rightarrow> is_digit c \<or> (c = CHR ''.'' \<and> (case r of d # r' \<Rightarrow> is_digit d | [] \<Rightarrow> False))
          | [] \<Rightarrow> False))"

definition no_leading_numeral :: "string \<Rightarrow> bool" where
  "no_leading_numeral s =
     (let t = dropWhile StrWhiteSpaceChar s;
          u = (case t of c # r \<Rightarrow> if c = CHR ''-'' \<or> c = CHR ''+'' then r else t | [] \<Rightarrow> t)
      in \<not> starts_numeral u)"

text \<open>
  Lines 66 to 94: the three fields are \<^verbatim>\<open>input\<close> elements of type \<^verbatim>\<open>number\<close>, and
  the setters are called with their value only. The value such an element reports is the
  empty text or a valid floating-point number of HTML: an optional minus sign; digits, or
  a dot and digits, or both in this order; optionally an \<^verbatim>\<open>e\<close> or \<^verbatim>\<open>E\<close>, an
  optional sign and digits.
\<close>

definition valid_exponent :: "string \<Rightarrow> bool" where
  "valid_exponent r =
     (case r of
        [] \<Rightarrow> True
      | c # r' \<Rightarrow>
          (c = CHR ''e'' \<or> c = CHR ''E'')
          \<and> (let ds = (case r' of
                         d # r'' \<Rightarrow> if d = CHR ''-'' \<or> d = CHR ''+'' then r'' else r'
                       | [] \<Rightarrow> r')
             in ds \<noteq> [] \<and> list_all is_digit ds))"

definition valid_unsigned :: "string \<Rightarrow> bool" where
  "valid_unsigned u =
     (case dropWhile is_digit u of
        c # r \<Rightarrow>
          if c = CHR ''.''
          then takeWhile is_digit r \<noteq> [] \<and> valid_exponent (dropWhile is_digit r)
          else takeWhile is_digit u \<noteq> [] \<and> valid_exponent (c # r)
      | [] \<Rightarrow> u \<noteq> [])"

definition valid_float_text :: "string \<Rightarrow> bool" where
  "valid_float_text s =
     (case s of
        c # r \<Rightarrow> if c = CHR ''-'' then valid_unsigned r else valid_unsigned s
      | [] \<Rightarrow> False)"

definition number_input_text :: "string \<Rightarrow> bool" where
  "number_input_text s = (s = [] \<or> valid_float_text s)"

text \<open>The characters that occur in a valid floating-point number.\<close>

definition numeral_char :: "char \<Rightarrow> bool" where
  "numeral_char c = (c \<in> set ''0123456789.eE+-'')"

section \<open>Binary64\<close>

text \<open>
  The operations above are exact on finite values. The program computes in binary64:
  each operation gives the exact result rounded to the nearest value with a significand of
  53 bits, a tie going to the even significand, and a rounded result of magnitude
  \<^verbatim>\<open>2^1024\<close> or more is an infinity. Below the smallest normal number
  \<^verbatim>\<open>2^-1022\<close> the values keep the spacing \<^verbatim>\<open>2^-1074\<close>. This section gives
  the rounding, the rounded operations, and the estimator once more with every operation
  rounded; the decimal literals of the source and the numbers read from text are rounded
  too.
\<close>

definition pow2 :: "int \<Rightarrow> real" where
  "pow2 e = (if 0 \<le> e then 2 ^ nat e else 1 / 2 ^ nat (- e))"

definition round_half_even :: "real \<Rightarrow> int" where
  "round_half_even t =
     (let f = \<lfloor>t\<rfloor>; d = t - of_int f
      in if d < 1 / 2 then f else if 1 / 2 < d then f + 1 else if even f then f else f + 1)"

text \<open>
  The binary exponent of a number, not below that of the smallest normal number: the
  integer part of the magnitude over \<^verbatim>\<open>2^-1074\<close> has as many bits as the exponent plus
  1075.
\<close>

definition exponent64 :: "real \<Rightarrow> int" where
  "exponent64 x = max (bitlen \<lfloor>\<bar>x\<bar> * pow2 1074\<rfloor> - 1075) (- 1022)"

definition nearest64 :: "real \<Rightarrow> real" where
  "nearest64 x = of_int (round_half_even (x / pow2 (exponent64 x - 52))) * pow2 (exponent64 x - 52)"

definition overflow64 :: real where
  "overflow64 = 2 ^ 1024"

definition round64 :: "real \<Rightarrow> jsnum" where
  "round64 x =
     (let v = nearest64 x
      in if overflow64 \<le> v then PInf else if v \<le> - overflow64 then NInf else Fin v)"

fun rnd :: "jsnum \<Rightarrow> jsnum" where
  "rnd (Fin a) = round64 a"
| "rnd x = x"

text \<open>The operators \<^verbatim>\<open>+\<close>, \<^verbatim>\<open>-\<close> and \<^verbatim>\<open>*\<close> of the program.\<close>

definition add64 :: "jsnum \<Rightarrow> jsnum \<Rightarrow> jsnum" where
  "add64 x y = rnd (js_add x y)"

definition sub64 :: "jsnum \<Rightarrow> jsnum \<Rightarrow> jsnum" where
  "sub64 x y = rnd (js_sub x y)"

definition mul64 :: "jsnum \<Rightarrow> jsnum \<Rightarrow> jsnum" where
  "mul64 x y = rnd (js_mul x y)"

text \<open>The relational operator \<^verbatim>\<open>x <= y\<close>.\<close>

definition js_le :: "jsnum \<Rightarrow> jsnum \<Rightarrow> bool" where
  "js_le x y = (x \<noteq> NaN \<and> y \<noteq> NaN \<and> \<not> js_gt x y)"

text \<open>
  Lines 22 to 56 with rounded operations. The constants 25, 2, 600, 8 and 1000 are
  binary64 values; \<^verbatim>\<open>0.10\<close> and \<^verbatim>\<open>0.20\<close> are not, and stand for the nearest ones.
\<close>

definition baseBTU64 :: "jsnum \<Rightarrow> jsnum" where
  "baseBTU64 a = mul64 a (Fin 25)"

definition occupancyBTU64 :: "jsnum \<Rightarrow> jsnum" where
  "occupancyBTU64 oc = (if js_gt oc (Fin 2) then mul64 (sub64 oc (Fin 2)) (Fin 600) else Fin 0)"

definition heightBTU64 :: "jsnum \<Rightarrow> jsnum" where
  "heightBTU64 h = (if js_gt h (Fin 8) then mul64 (sub64 h (Fin 8)) (Fin 1000) else Fin 0)"

definition sunBTU64 :: "string \<Rightarrow> jsnum \<Rightarrow> jsnum" where
  "sunBTU64 e b =
     (if e = ''shady'' then js_neg (mul64 b (round64 (1 / 10)))
      else if e = ''sunny'' then mul64 b (round64 (1 / 10))
      else if e = ''very_sunny'' then mul64 b (round64 (2 / 10))
      else Fin 0)"

definition total_value64 :: "jsnum \<Rightarrow> jsnum \<Rightarrow> jsnum \<Rightarrow> string \<Rightarrow> jsnum" where
  "total_value64 a oc h e =
     add64 (add64 (add64 (baseBTU64 a) (occupancyBTU64 oc)) (heightBTU64 h))
       (sunBTU64 e (baseBTU64 a))"

text \<open>Lines 17 to 19 and 56: \<^verbatim>\<open>parseFloat\<close> gives the binary64 value nearest to the numeral.\<close>

definition parseFloat64 :: "string \<Rightarrow> jsnum" where
  "parseFloat64 s = rnd (parseFloat s)"

definition calculateBTU64 :: "component \<Rightarrow> component" where
  "calculateBTU64 st =
     st\<lparr>totalBTU := total_value64 (js_or (parseFloat64 (area st)) (Fin 0))
                        (js_or (parseFloat64 (occupants st)) (Fin 0))
                        (js_or (parseFloat64 (height st)) (Fin 0)) (sunExposure st)\<rparr>"

text \<open>A binary64 value that is not negative, or \<^verbatim>\<open>Infinity\<close>.\<close>

definition nonneg_double :: "jsnum \<Rightarrow> bool" where
  "nonneg_double x =
     (case x of Fin u \<Rightarrow> 0 \<le> u \<and> round64 u = Fin u | PInf \<Rightarrow> True | NInf \<Rightarrow> False | NaN \<Rightarrow> False)"

section \<open>Properties\<close>

lemmas text_defs = parseFloat_def ToNumber_def NonDecimalIntegerLiteral_def StrDecimalLiteral_def
  StrUnsignedDecimalLiteral_def StrWhiteSpaceChar_def is_digit_def ExponentPart_def
  SignedInteger_def digits_val_def digit_val_def scale10_def radix_val_def radix_digit_def

lemmas term_defs = baseBTU_def occupancyBTU_def heightBTU_def sunBTU_def total_value_def

lemmas parsed_defs = areaVal_def occupantsVal_def heightVal_def

lemmas eval64 = pow2_def round_half_even_def overflow64_def

lemmas number_text_defs = number_input_text_def valid_float_text_def valid_unsigned_def
  valid_exponent_def is_digit_def

subsection \<open>The terms on finite numbers\<close>

lemma occupancyBTU_Fin: "occupancyBTU (Fin x) = Fin (if 2 < x then (x - 2) * 600 else 0)"
  by (simp add: occupancyBTU_def)

lemma heightBTU_Fin: "heightBTU (Fin x) = Fin (if 8 < x then (x - 8) * 1000 else 0)"
  by (simp add: heightBTU_def)

lemma sunBTU_Fin:
  "sunBTU e (Fin b) =
     Fin (if e = ''shady'' then - (b * (1 / 10)) else if e = ''sunny'' then b * (1 / 10)
          else if e = ''very_sunny'' then b * (2 / 10) else 0)"
  by (simp add: sunBTU_def)

lemma total_value_Fin:
  "total_value (Fin a) (Fin oc) (Fin h) e =
     Fin (a * 25 + (if 2 < oc then (oc - 2) * 600 else 0) + (if 8 < h then (h - 8) * 1000 else 0)
          + (if e = ''shady'' then - (a * 25 * (1 / 10)) else if e = ''sunny'' then a * 25 * (1 / 10)
             else if e = ''very_sunny'' then a * 25 * (2 / 10) else 0))"
  unfolding total_value_def baseBTU_def js_mul.simps occupancyBTU_Fin heightBTU_Fin sunBTU_Fin
    js_add.simps
  by (rule refl)

subsection \<open>The two conversions\<close>

lemma is_digit_numeral_char: "is_digit c \<Longrightarrow> numeral_char c"
  by (auto simp add: is_digit_def numeral_char_def)

lemma takeWhile_digits_all: "list_all is_digit ds \<Longrightarrow> takeWhile is_digit ds = ds"
  by (simp add: list_all_iff)

lemma dropWhile_digits_all: "list_all is_digit ds \<Longrightarrow> dropWhile is_digit ds = []"
  by (simp add: list_all_iff)

lemma not_digit_sign [simp]:
  "\<not> is_digit CHR ''.''" "\<not> is_digit CHR ''-''" "\<not> is_digit CHR ''+''"
  "\<not> is_digit CHR ''e''" "\<not> is_digit CHR ''E''"
  by (simp_all add: is_digit_def)

lemma valid_exponent_ExponentPart:
  assumes "valid_exponent r"
  shows "\<exists>e. ExponentPart r = (e, [])"
proof (cases r)
  case Nil
  then show ?thesis by (simp add: ExponentPart_def)
next
  case (Cons c r')
  with assms have c: "c = CHR ''e'' \<or> c = CHR ''E''" by (simp add: valid_exponent_def)
  show ?thesis
  proof (cases r')
    case Nil
    with Cons assms show ?thesis by (simp add: valid_exponent_def)
  next
    case r': (Cons d r'')
    show ?thesis
    proof (cases "d = CHR ''-'' \<or> d = CHR ''+''")
      case True
      with Cons r' assms have "r'' \<noteq> []" "list_all is_digit r''"
        by (simp_all add: valid_exponent_def)
      then have "\<exists>e. SignedInteger r' = Some (e, [])"
        using True r' by (auto simp add: SignedInteger_def takeWhile_digits_all dropWhile_digits_all)
      with Cons c show ?thesis by (auto simp add: ExponentPart_def)
    next
      case False
      with Cons r' assms have "list_all is_digit r'"
        by (simp_all add: valid_exponent_def)
      then have "\<exists>e. SignedInteger r' = Some (e, [])"
        using False r' by (auto simp add: SignedInteger_def takeWhile_digits_all dropWhile_digits_all)
      with Cons c show ?thesis by (auto simp add: ExponentPart_def)
    qed
  qed
qed

lemma valid_exponent_chars:
  assumes "valid_exponent r"
  shows "list_all numeral_char r"
proof (cases r)
  case Nil
  then show ?thesis by simp
next
  case (Cons c r')
  with assms have c: "numeral_char c" by (auto simp add: valid_exponent_def numeral_char_def)
  have "list_all numeral_char r'"
  proof (cases r')
    case Nil
    then show ?thesis by simp
  next
    case r': (Cons d r'')
    show ?thesis
    proof (cases "d = CHR ''-'' \<or> d = CHR ''+''")
      case True
      with Cons r' assms have "list_all is_digit r''" by (simp add: valid_exponent_def)
      then have "list_all numeral_char r''"
        by (auto simp add: list_all_iff is_digit_numeral_char)
      moreover from True have "numeral_char d" by (auto simp add: numeral_char_def)
      ultimately show ?thesis using r' by simp
    next
      case False
      with Cons r' assms have "list_all is_digit r'" by (simp add: valid_exponent_def)
      then show ?thesis by (auto simp add: list_all_iff is_digit_numeral_char)
    qed
  qed
  with c Cons show ?thesis by simp
qed


lemma digits_numeral_chars: "list_all numeral_char (takeWhile is_digit u)"
  by (auto simp add: list_all_iff is_digit_numeral_char dest: set_takeWhileD)

lemma valid_unsigned_chars:
  assumes "valid_unsigned u"
  shows "list_all numeral_char u \<and> u \<noteq> [] \<and> hd u \<noteq> CHR ''-'' \<and> hd u \<noteq> CHR ''+''"
proof -
  have split: "u = takeWhile is_digit u @ dropWhile is_digit u" by simp
  have nonempty: "u \<noteq> []"
    using assms by (cases u) (simp_all add: valid_unsigned_def valid_exponent_def)
  have rest: "list_all numeral_char (dropWhile is_digit u)"
  proof (cases "dropWhile is_digit u")
    case Nil
    show ?thesis unfolding Nil by simp
  next
    case (Cons c r)
    show ?thesis
    proof (cases "c = CHR ''.''")
      case True
      with Cons assms have "valid_exponent (dropWhile is_digit r)"
        by (simp add: valid_unsigned_def)
      then have "list_all numeral_char (dropWhile is_digit r)" by (rule valid_exponent_chars)
      with digits_numeral_chars [of r]
      have "list_all numeral_char (takeWhile is_digit r @ dropWhile is_digit r)"
        by (simp only: list_all_append simp_thms)
      then have "list_all numeral_char r" by simp
      with True Cons show ?thesis by (simp add: numeral_char_def)
    next
      case False
      with Cons assms have "valid_exponent (c # r)" by (simp add: valid_unsigned_def)
      then have "list_all numeral_char (c # r)" by (rule valid_exponent_chars)
      then show ?thesis unfolding Cons .
    qed
  qed
  with digits_numeral_chars [of u]
  have "list_all numeral_char (takeWhile is_digit u @ dropWhile is_digit u)"
    by (simp only: list_all_append simp_thms)
  then have chars: "list_all numeral_char u" by simp
  have "hd u \<noteq> CHR ''-'' \<and> hd u \<noteq> CHR ''+''"
  proof (cases u)
    case Nil
    with nonempty show ?thesis by simp
  next
    case (Cons c r)
    show ?thesis
    proof (cases "is_digit c")
      case True
      then show ?thesis using Cons by auto
    next
      case False
      with Cons assms show ?thesis
        by (auto simp add: valid_unsigned_def valid_exponent_def split: if_splits)
    qed
  qed
  with chars nonempty show ?thesis by simp
qed

lemma numeral_chars_not_Infinity:
  assumes "list_all numeral_char u"
  shows "take 8 u \<noteq> ''Infinity''"
proof
  assume i: "take 8 u = ''Infinity''"
  then obtain c r where u: "u = c # r" by (cases u) auto
  with i have "c = CHR ''I''" by simp
  with assms u show False by (simp add: numeral_char_def)
qed

lemma valid_unsigned_parse:
  assumes "valid_unsigned u"
  shows "\<exists>v. StrUnsignedDecimalLiteral u = Some (Fin v, [])"
proof -
  have ni: "take 8 u \<noteq> ''Infinity''"
    using valid_unsigned_chars [OF assms] by (simp add: numeral_chars_not_Infinity)
  show ?thesis
  proof (cases "dropWhile is_digit u")
    case Nil
    from assms have ne: "u \<noteq> []" unfolding valid_unsigned_def Nil by simp
    from Nil have ip: "takeWhile is_digit u = u" by simp
    show ?thesis
      unfolding StrUnsignedDecimalLiteral_def Let_def Nil ip
      using ni ne by (simp add: ExponentPart_def)
  next
    case (Cons c r)
    show ?thesis
    proof (cases "c = CHR ''.''")
      case True
      with Cons assms have fp: "takeWhile is_digit r \<noteq> []"
        and "valid_exponent (dropWhile is_digit r)"
        by (simp_all add: valid_unsigned_def)
      then obtain e where "ExponentPart (dropWhile is_digit r) = (e, [])"
        using valid_exponent_ExponentPart by blast
      with True Cons fp ni show ?thesis
        by (simp add: StrUnsignedDecimalLiteral_def Let_def)
    next
      case False
      with Cons assms have ip: "takeWhile is_digit u \<noteq> []" and "valid_exponent (c # r)"
        by (simp_all add: valid_unsigned_def)
      then obtain e where "ExponentPart (c # r) = (e, [])"
        using valid_exponent_ExponentPart by blast
      with False Cons ip ni show ?thesis
        by (simp add: StrUnsignedDecimalLiteral_def Let_def)
    qed
  qed
qed

lemma valid_float_text_parse:
  assumes "valid_float_text s"
  shows "\<exists>v. StrDecimalLiteral s = Some (Fin v, [])"
proof -
  from assms obtain c r where s: "s = c # r" by (cases s) (auto simp add: valid_float_text_def)
  show ?thesis
  proof (cases "c = CHR ''-''")
    case True
    with s assms have "valid_unsigned r" by (simp add: valid_float_text_def)
    then obtain v where "StrUnsignedDecimalLiteral r = Some (Fin v, [])"
      using valid_unsigned_parse by blast
    with True s show ?thesis by (simp add: StrDecimalLiteral_def)
  next
    case False
    with s assms have u: "valid_unsigned s" by (simp add: valid_float_text_def)
    then obtain v where v: "StrUnsignedDecimalLiteral s = Some (Fin v, [])"
      using valid_unsigned_parse by blast
    from valid_unsigned_chars [OF u] s have "c \<noteq> CHR ''+''" by simp
    with False s v show ?thesis by (simp add: StrDecimalLiteral_def)
  qed
qed

lemma valid_float_text_chars:
  assumes "valid_float_text s"
  shows "list_all numeral_char s"
proof -
  from assms obtain c r where s: "s = c # r" by (cases s) (auto simp add: valid_float_text_def)
  show ?thesis
  proof (cases "c = CHR ''-''")
    case True
    with s assms have "valid_unsigned r" by (simp add: valid_float_text_def)
    with True s show ?thesis using valid_unsigned_chars [of r] by (simp add: numeral_char_def)
  next
    case False
    with s assms show ?thesis using valid_unsigned_chars [of s] by (simp add: valid_float_text_def)
  qed
qed

lemma numeral_char_not_white: "numeral_char c \<Longrightarrow> \<not> StrWhiteSpaceChar c"
  by (auto simp add: numeral_char_def StrWhiteSpaceChar_def)

lemma numeral_chars_trim:
  assumes "list_all numeral_char s"
  shows "dropWhile StrWhiteSpaceChar s = s"
    and "rev (dropWhile StrWhiteSpaceChar (rev s)) = s"
proof -
  from assms have nw: "\<And>c. c \<in> set s \<Longrightarrow> \<not> StrWhiteSpaceChar c"
    by (simp add: list_all_iff numeral_char_not_white)
  then show "dropWhile StrWhiteSpaceChar s = s" by simp
  have "dropWhile StrWhiteSpaceChar (rev s) = rev s"
    by (rule dropWhile_id) (simp add: nw)
  then show "rev (dropWhile StrWhiteSpaceChar (rev s)) = s" by simp
qed

lemma numeral_chars_decimal:
  assumes "list_all numeral_char s"
  shows "NonDecimalIntegerLiteral s = None"
proof (cases s)
  case Nil
  then show ?thesis by (simp add: NonDecimalIntegerLiteral_def)
next
  case (Cons z r)
  show ?thesis
  proof (cases r)
    case Nil
    with Cons show ?thesis by (simp add: NonDecimalIntegerLiteral_def)
  next
    case r: (Cons x ds)
    with Cons assms have "numeral_char x" by simp
    then have "x \<notin> set ''xXoObB''" by (auto simp add: numeral_char_def)
    with Cons r show ?thesis by (simp add: NonDecimalIntegerLiteral_def)
  qed
qed

lemma valid_float_text_conversions:
  assumes "valid_float_text s"
  shows "ToNumber s = parseFloat s"
proof -
  from assms obtain v where v: "StrDecimalLiteral s = Some (Fin v, [])"
    using valid_float_text_parse by blast
  have chars: "list_all numeral_char s" using assms by (rule valid_float_text_chars)
  from assms have "s \<noteq> []" by (auto simp add: valid_float_text_def)
  then show ?thesis
    using v numeral_chars_trim [OF chars] numeral_chars_decimal [OF chars]
    by (simp add: ToNumber_def parseFloat_def Let_def)
qed

lemma number_input_text_conversions:
  assumes "number_input_text s"
  shows "js_or (ToNumber s) (Fin 0) = js_or (parseFloat s) (Fin 0)"
proof (cases "s = []")
  case True
  then show ?thesis
    by (simp add: ToNumber_def parseFloat_def StrDecimalLiteral_def js_or_def)
next
  case False
  with assms have "valid_float_text s" by (simp add: number_input_text_def)
  then show ?thesis by (simp add: valid_float_text_conversions)
qed

subsection \<open>Texts that \<^verbatim>\<open>parseFloat\<close> does not convert\<close>

lemma starts_numeral_Nil: "\<not> starts_numeral []"
  by (simp add: starts_numeral_def)

lemma StrUnsignedDecimalLiteral_None:
  "StrUnsignedDecimalLiteral u = None \<longleftrightarrow> \<not> starts_numeral u"
proof (cases u)
  case Nil
  then show ?thesis by (simp add: StrUnsignedDecimalLiteral_def starts_numeral_def)
next
  case (Cons c r)
  show ?thesis
  proof (cases "take 8 u = ''Infinity''")
    case True
    then show ?thesis by (simp add: StrUnsignedDecimalLiteral_def starts_numeral_def)
  next
    case False
    show ?thesis
    proof (cases "is_digit c")
      case True
      with Cons False show ?thesis
        by (simp add: StrUnsignedDecimalLiteral_def starts_numeral_def Let_def split: prod.splits)
    next
      case nd: False
      show ?thesis
      proof (cases "c = CHR ''.''")
        case True
        with Cons False nd show ?thesis
          by (cases r) (simp_all add: StrUnsignedDecimalLiteral_def starts_numeral_def Let_def
              split: prod.splits)
      next
        case nodot: False
        with Cons False nd show ?thesis
          by (simp add: StrUnsignedDecimalLiteral_def starts_numeral_def Let_def split: prod.splits)
      qed
    qed
  qed
qed

lemma StrUnsignedDecimalLiteral_not_NaN:
  "StrUnsignedDecimalLiteral u = Some (v, r) \<Longrightarrow> v \<noteq> NaN \<and> js_neg v \<noteq> NaN"
  by (auto simp add: StrUnsignedDecimalLiteral_def Let_def split: if_splits prod.splits)

lemma StrDecimalLiteral_None:
  "StrDecimalLiteral t = None \<longleftrightarrow>
     \<not> starts_numeral (case t of c # r \<Rightarrow> if c = CHR ''-'' \<or> c = CHR ''+'' then r else t | [] \<Rightarrow> t)"
  by (cases t) (simp_all add: StrDecimalLiteral_def StrUnsignedDecimalLiteral_None starts_numeral_Nil)

lemma StrDecimalLiteral_not_NaN: "StrDecimalLiteral t = Some (v, r) \<Longrightarrow> v \<noteq> NaN"
  by (cases t) (auto simp add: StrDecimalLiteral_def split: if_splits
      dest: StrUnsignedDecimalLiteral_not_NaN)

lemma parseFloat_NaN_iff: "parseFloat s = NaN \<longleftrightarrow> no_leading_numeral s"
proof (cases "StrDecimalLiteral (dropWhile StrWhiteSpaceChar s)")
  case None
  then show ?thesis
    using StrDecimalLiteral_None [of "dropWhile StrWhiteSpaceChar s"]
    by (simp add: parseFloat_def no_leading_numeral_def Let_def)
next
  case (Some p)
  obtain v r where p: "p = (v, r)" by (cases p)
  from Some p have "v \<noteq> NaN" by (auto dest: StrDecimalLiteral_not_NaN)
  moreover from Some have "\<not> no_leading_numeral s"
    using StrDecimalLiteral_None [of "dropWhile StrWhiteSpaceChar s"]
    by (simp add: no_leading_numeral_def Let_def)
  ultimately show ?thesis using Some p by (simp add: parseFloat_def)
qed

subsection \<open>The expressions of the markup\<close>

lemma render_base_eq: "render_base st = baseBTU (js_or (ToNumber (area st)) (Fin 0))"
  by (cases "ToNumber (area st)") (simp_all add: render_base_def baseBTU_def js_or_def inf_of_sign_def)

lemma render_occupancy_eq:
  "render_occupancy st = occupancyBTU (js_or (ToNumber (occupants st)) (Fin 0))"
  by (cases "ToNumber (occupants st)")
    (auto simp add: render_occupancy_def occupancyBTU_def js_or_def inf_of_sign_def max_def)

lemma render_height_eq:
  "render_height st = heightBTU (js_or (ToNumber (height st)) (Fin 0))"
  by (cases "ToNumber (height st)")
    (auto simp add: render_height_def heightBTU_def js_or_def inf_of_sign_def max_def)

lemma render_climate_eq:
  "render_climate st = sunBTU (sunExposure st) (baseBTU (js_or (ToNumber (area st)) (Fin 0)))"
  by (cases "ToNumber (area st)")
    (simp_all add: render_climate_def sunBTU_def baseBTU_def js_or_def inf_of_sign_def)

lemma render_unchanged:
  "render_base (calculateBTU st) = render_base st"
  "render_occupancy (calculateBTU st) = render_occupancy st"
  "render_height (calculateBTU st) = render_height st"
  "render_climate (calculateBTU st) = render_climate st"
  by (simp_all add: calculateBTU_def render_base_def render_occupancy_def render_height_def
      render_climate_def)

subsection \<open>\<^verbatim>\<open>calculateBTU\<close> as it is written\<close>

text \<open>
  The body of the function, statement by statement: the three parsed values, the base,
  the two conditional adjustments, the chain on the exposure, and the call of the setter.
\<close>

lemma calculateBTU_as_written:
  "calculateBTU st =
     (let areaVal = js_or (parseFloat (area st)) (Fin 0);
          occupantsVal = js_or (parseFloat (occupants st)) (Fin 0);
          heightVal = js_or (parseFloat (height st)) (Fin 0);
          baseBTU = js_mul areaVal (Fin 25);
          occupancyBTU = (if js_gt occupantsVal (Fin 2)
                          then js_mul (js_sub occupantsVal (Fin 2)) (Fin 600) else Fin 0);
          heightBTU = (if js_gt heightVal (Fin 8)
                       then js_mul (js_sub heightVal (Fin 8)) (Fin 1000) else Fin 0);
          sunBTU = (if sunExposure st = ''shady'' then js_neg (js_mul baseBTU (Fin (1 / 10)))
                    else if sunExposure st = ''sunny'' then js_mul baseBTU (Fin (1 / 10))
                    else if sunExposure st = ''very_sunny'' then js_mul baseBTU (Fin (2 / 10))
                    else Fin 0)
      in st\<lparr>totalBTU := js_add (js_add (js_add baseBTU occupancyBTU) heightBTU) sunBTU\<rparr>)"
  by (simp add: calculateBTU_def parsed_defs term_defs Let_def)

text \<open>The four scenarios of the specification, from the texts to the stored total.\<close>

lemma scenario_totals:
  "totalBTU (calculateBTU \<lparr>area = ''200'', occupants = ''2'', height = ''8'',
                           sunExposure = ''average'', totalBTU = Fin 0\<rparr>) = Fin 5000"
  "totalBTU (calculateBTU \<lparr>area = ''500'', occupants = ''5'', height = ''10'',
                           sunExposure = ''sunny'', totalBTU = Fin 0\<rparr>) = Fin 17550"
  "totalBTU (calculateBTU \<lparr>area = ''300'', occupants = ''1'', height = ''7'',
                           sunExposure = ''shady'', totalBTU = Fin 0\<rparr>) = Fin 6750"
  "totalBTU (calculateBTU \<lparr>area = ''0'', occupants = ''0'', height = ''0'',
                           sunExposure = ''very_sunny'', totalBTU = Fin 0\<rparr>) = Fin 0"
  by (simp_all add: calculateBTU_def parsed_defs js_or_def term_defs text_defs)

text \<open>
  An infinite area is not a real number: \<^verbatim>\<open>parseFloat\<close> gives it for the text
  \<^verbatim>\<open>Infinity\<close>, and with \<^verbatim>\<open>shady\<close> the total is then NaN.
\<close>

lemma infinite_area_shady:
  "totalBTU (calculateBTU \<lparr>area = ''Infinity'', occupants = '''', height = '''',
                           sunExposure = ''shady'', totalBTU = Fin 0\<rparr>) = NaN"
  by (simp add: calculateBTU_def parsed_defs js_or_def term_defs text_defs inf_of_sign_def)

subsection \<open>Rounding to binary64\<close>

lemma pow2_powr: "pow2 e = 2 powr of_int e"
proof (cases "0 \<le> e")
  case True
  then show ?thesis by (simp add: pow2_def powr_real_of_int)
next
  case False
  then show ?thesis by (simp add: pow2_def powr_real_of_int field_simps)
qed

lemma pow2_pos [simp]: "0 < pow2 e"
  by (simp add: pow2_powr)

lemma pow2_nonneg [simp]: "0 \<le> pow2 e"
  by (simp add: pow2_powr)

lemma pow2_neq0 [simp]: "pow2 e \<noteq> 0"
  by (simp add: pow2_powr)

lemma pow2_mono: "a \<le> b \<Longrightarrow> pow2 a \<le> pow2 b"
  by (simp add: pow2_powr)

lemma pow2_add: "pow2 (a + b) = pow2 a * pow2 b"
  by (simp add: pow2_powr powr_add)

lemma pow2_diff: "pow2 (a - b) = pow2 a / pow2 b"
  by (simp add: pow2_powr powr_diff)

lemma rhe_of_int [simp]: "round_half_even (of_int n) = n"
  by (simp add: round_half_even_def)

lemma rhe_0 [simp]: "round_half_even 0 = 0"
  by (simp add: round_half_even_def)

lemma rhe_mono:
  assumes "s \<le> t"
  shows "round_half_even s \<le> round_half_even t"
proof -
  have fl: "\<lfloor>s\<rfloor> \<le> \<lfloor>t\<rfloor>" using assms by (rule floor_mono)
  show ?thesis
  proof (cases "\<lfloor>s\<rfloor> = \<lfloor>t\<rfloor>")
    case True
    with assms show ?thesis by (auto simp add: round_half_even_def Let_def)
  next
    case False
    with fl have "\<lfloor>s\<rfloor> + 1 \<le> \<lfloor>t\<rfloor>" by simp
    moreover have "round_half_even s \<le> \<lfloor>s\<rfloor> + 1" by (simp add: round_half_even_def Let_def)
    moreover have "\<lfloor>t\<rfloor> \<le> round_half_even t" by (simp add: round_half_even_def Let_def)
    ultimately show ?thesis by linarith
  qed
qed

lemma rhe_ge: "of_int m \<le> t \<Longrightarrow> m \<le> round_half_even t"
  using rhe_mono [of "of_int m" t] by simp

lemma rhe_le: "t \<le> of_int m \<Longrightarrow> round_half_even t \<le> m"
  using rhe_mono [of t "of_int m"] by simp

lemma pow2_less_cancel: "pow2 a < pow2 b \<Longrightarrow> a < b"
  by (simp add: pow2_powr)

lemma pow2_nat: "0 \<le> k \<Longrightarrow> pow2 k = 2 ^ nat k"
  by (simp add: pow2_def)

lemma pow2_shift: "pow2 k = pow2 (k - 1074) * pow2 1074"
proof -
  have "pow2 k = pow2 ((k - 1074) + 1074)" by simp
  also have "\<dots> = pow2 (k - 1074) * pow2 1074" by (rule pow2_add)
  finally show ?thesis .
qed

lemma scaled_bounds:
  assumes "0 < x" and "0 < \<lfloor>x * pow2 1074\<rfloor>"
  shows "pow2 (bitlen \<lfloor>x * pow2 1074\<rfloor> - 1075) \<le> x"
    and "x < pow2 (bitlen \<lfloor>x * pow2 1074\<rfloor> - 1075 + 1)"
proof -
  define n where "n = \<lfloor>x * pow2 1074\<rfloor>"
  define k where "k = bitlen n - 1"
  have n: "0 < n" using assms(2) by (simp add: n_def)
  have b: "2 ^ nat k \<le> n" "n < 2 ^ nat (k + 1)"
    using bitlen_bounds [OF n] by (simp_all add: k_def)
  have k0: "0 \<le> k" using n by (simp add: k_def bitlen_alt_def)
  have lo: "of_int n \<le> x * pow2 1074" and hi: "x * pow2 1074 < of_int n + 1"
    by (simp_all add: n_def)
  have "(2::real) ^ nat k \<le> of_int n"
    using b(1) by (metis of_int_le_iff of_int_numeral of_int_power)
  then have "pow2 k \<le> of_int n" using k0 by (simp add: pow2_nat)
  with lo have "pow2 k \<le> x * pow2 1074" by linarith
  then have "pow2 (k - 1074) * pow2 1074 \<le> x * pow2 1074" using pow2_shift [of k] by simp
  then have l: "pow2 (k - 1074) \<le> x" by simp
  have "n + 1 \<le> 2 ^ nat (k + 1)" using b(2) by simp
  then have "of_int (n + 1) \<le> (2::real) ^ nat (k + 1)"
    by (metis of_int_le_iff of_int_numeral of_int_power)
  then have "of_int n + 1 \<le> pow2 (k + 1)" using k0 by (simp add: pow2_nat)
  with hi have "x * pow2 1074 < pow2 (k + 1)" by linarith
  then have "x * pow2 1074 < pow2 (k + 1 - 1074) * pow2 1074" using pow2_shift [of "k + 1"] by simp
  then have u: "x < pow2 (k + 1 - 1074)" by simp
  have e: "bitlen \<lfloor>x * pow2 1074\<rfloor> - 1075 = k - 1074" by (simp add: k_def n_def)
  show "pow2 (bitlen \<lfloor>x * pow2 1074\<rfloor> - 1075) \<le> x" unfolding e by (rule l)
  have "k - 1074 + 1 = k + 1 - 1074" by simp
  then show "x < pow2 (bitlen \<lfloor>x * pow2 1074\<rfloor> - 1075 + 1)" unfolding e using u by simp
qed

lemma exponent64_bounds:
  assumes "0 < x"
  shows "x < pow2 (exponent64 x + 1)" and "pow2 (exponent64 x) \<le> x \<or> exponent64 x = - 1022"
    and "- 1022 \<le> exponent64 x"
proof -
  define k where "k = bitlen \<lfloor>x * pow2 1074\<rfloor> - 1075"
  have e: "exponent64 x = max k (- 1022)" using assms by (simp add: exponent64_def k_def)
  show "- 1022 \<le> exponent64 x" unfolding e by simp
  have nn: "0 \<le> \<lfloor>x * pow2 1074\<rfloor>" using assms by simp
  show "x < pow2 (exponent64 x + 1)"
  proof (cases "0 < \<lfloor>x * pow2 1074\<rfloor>")
    case True
    have "x < pow2 (k + 1)" using scaled_bounds(2) [OF assms True] by (simp add: k_def)
    moreover have "pow2 (k + 1) \<le> pow2 (exponent64 x + 1)" unfolding e by (rule pow2_mono) simp
    ultimately show ?thesis by linarith
  next
    case False
    with nn have z: "\<lfloor>x * pow2 1074\<rfloor> = 0" by linarith
    then have "x * pow2 1074 < 1" using floor_correct [of "x * pow2 1074"] by simp
    then have "x * pow2 1074 < pow2 0" by (simp add: pow2_def)
    then have "x * pow2 1074 < pow2 (0 - 1074) * pow2 1074" using pow2_shift [of 0] by simp
    then have "x < pow2 (- 1074)" by simp
    moreover have "pow2 (- 1074) \<le> pow2 (exponent64 x + 1)" unfolding e by (rule pow2_mono) simp
    ultimately show ?thesis by linarith
  qed
  show "pow2 (exponent64 x) \<le> x \<or> exponent64 x = - 1022"
  proof (cases "- 1022 \<le> k")
    case True
    then have "0 < bitlen \<lfloor>x * pow2 1074\<rfloor>" by (simp add: k_def)
    then have "\<lfloor>x * pow2 1074\<rfloor> \<noteq> 0" by (metis bitlen_zero less_irrefl)
    with nn have "0 < \<lfloor>x * pow2 1074\<rfloor>" by linarith
    then have "pow2 k \<le> x" using scaled_bounds(1) [OF assms] by (simp add: k_def)
    with True show ?thesis by (simp add: e max_def)
  next
    case False
    then show ?thesis by (simp add: e max_def)
  qed
qed

lemma exponent64_eqI:
  assumes "0 < v" and "v < pow2 (e + 1)" and "- 1022 \<le> e" and "pow2 e \<le> v \<or> e = - 1022"
  shows "exponent64 v = e"
proof (rule antisym)
  note b = exponent64_bounds [OF assms(1)]
  show "exponent64 v \<le> e"
  proof (rule ccontr)
    assume "\<not> exponent64 v \<le> e"
    then have lt: "e + 1 \<le> exponent64 v" by simp
    with assms(3) b(2) have "pow2 (exponent64 v) \<le> v" by auto
    moreover have "pow2 (e + 1) \<le> pow2 (exponent64 v)" using lt by (rule pow2_mono)
    ultimately show False using assms(2) by linarith
  qed
  show "e \<le> exponent64 v"
  proof (rule ccontr)
    assume "\<not> e \<le> exponent64 v"
    then have lt: "exponent64 v + 1 \<le> e" by simp
    with b(3) assms(4) have "pow2 e \<le> v" by auto
    moreover have "pow2 (exponent64 v + 1) \<le> pow2 e" using lt by (rule pow2_mono)
    ultimately show False using b(1) by linarith
  qed
qed

lemma exponent64_mono:
  assumes "0 < x" and "x \<le> y"
  shows "exponent64 x \<le> exponent64 y"
proof -
  have "x * pow2 1074 \<le> y * pow2 1074" using assms(2) by simp
  then have "\<lfloor>x * pow2 1074\<rfloor> \<le> \<lfloor>y * pow2 1074\<rfloor>" by (rule floor_mono)
  then have "nat \<lfloor>x * pow2 1074\<rfloor> \<le> nat \<lfloor>y * pow2 1074\<rfloor>" by simp
  then have "bitlen \<lfloor>x * pow2 1074\<rfloor> \<le> bitlen \<lfloor>y * pow2 1074\<rfloor>"
    by (simp add: bitlen_def floorlog_mono)
  with assms show ?thesis by (simp add: exponent64_def)
qed

lemma exponent64_abs: "exponent64 \<bar>x\<bar> = exponent64 x"
  by (simp add: exponent64_def)

text \<open>The exponent is the integer part of the binary logarithm, where that is not below \<open>-1022\<close>.\<close>

lemma exponent64_log:
  assumes "x \<noteq> 0"
  shows "exponent64 x = max \<lfloor>log 2 \<bar>x\<bar>\<rfloor> (- 1022)"
proof -
  define k where "k = \<lfloor>log 2 \<bar>x\<bar>\<rfloor>"
  have pos: "0 < \<bar>x\<bar>" using assms by simp
  have kb: "pow2 k \<le> \<bar>x\<bar>" "\<bar>x\<bar> < pow2 (k + 1)"
    using floor_log_eq_powr_iff [of "\<bar>x\<bar>" 2 k] pos by (simp_all add: k_def pow2_powr)
  have "exponent64 \<bar>x\<bar> = max k (- 1022)"
  proof (rule exponent64_eqI [OF pos])
    have "pow2 (k + 1) \<le> pow2 (max k (- 1022) + 1)" by (rule pow2_mono) simp
    with kb(2) show "\<bar>x\<bar> < pow2 (max k (- 1022) + 1)" by linarith
    show "- 1022 \<le> max k (- 1022)" by simp
    show "pow2 (max k (- 1022)) \<le> \<bar>x\<bar> \<or> max k (- 1022) = - 1022"
      using kb(1) by (cases "- 1022 \<le> k") (simp_all add: max_def)
  qed
  then show ?thesis by (simp add: exponent64_abs k_def)
qed

lemma pow2_53: "pow2 (e + 1) = 2 ^ 53 * pow2 (e - 52)"
proof -
  have "pow2 (e + 1) = pow2 (53 + (e - 52))" by (rule arg_cong [where f = pow2]) simp
  also have "\<dots> = pow2 53 * pow2 (e - 52)" by (rule pow2_add)
  finally show ?thesis by (simp add: pow2_def)
qed

lemma pow2_52: "pow2 e = 2 ^ 52 * pow2 (e - 52)"
proof -
  have "pow2 e = pow2 (52 + (e - 52))" by (rule arg_cong [where f = pow2]) simp
  also have "\<dots> = pow2 52 * pow2 (e - 52)" by (rule pow2_add)
  finally show ?thesis by (simp add: pow2_def)
qed

lemma nearest64_0 [simp]: "nearest64 0 = 0"
  by (simp add: nearest64_def)

lemma nearest64_nonneg: "0 \<le> x \<Longrightarrow> 0 \<le> nearest64 x"
proof -
  assume "0 \<le> x"
  then have "0 \<le> x / pow2 (exponent64 x - 52)" by simp
  then have "0 \<le> round_half_even (x / pow2 (exponent64 x - 52))"
    using rhe_ge [of 0] by simp
  then show ?thesis by (simp add: nearest64_def)
qed

lemma nearest64_upper:
  assumes "0 < x"
  shows "nearest64 x \<le> pow2 (exponent64 x + 1)"
proof -
  let ?q = "pow2 (exponent64 x - 52)"
  have "x < 2 ^ 53 * ?q" using exponent64_bounds(1) [OF assms] by (simp add: pow2_53)
  then have "x / ?q \<le> of_int (2 ^ 53)" by (simp add: field_simps)
  then have "round_half_even (x / ?q) \<le> 2 ^ 53" by (rule rhe_le)
  then have "of_int (round_half_even (x / ?q)) \<le> (2 ^ 53 :: real)"
    by (metis of_int_le_iff of_int_numeral of_int_power)
  then have "of_int (round_half_even (x / ?q)) * ?q \<le> 2 ^ 53 * ?q"
    by (simp add: mult_right_mono)
  then show ?thesis by (simp add: nearest64_def pow2_53)
qed

lemma nearest64_lower:
  assumes "0 < x" and "pow2 (exponent64 x) \<le> x"
  shows "pow2 (exponent64 x) \<le> nearest64 x"
proof -
  let ?q = "pow2 (exponent64 x - 52)"
  have "2 ^ 52 * ?q \<le> x" using assms(2) pow2_52 [of "exponent64 x"] by simp
  then have "of_int (2 ^ 52) \<le> x / ?q" by (simp add: field_simps)
  then have "2 ^ 52 \<le> round_half_even (x / ?q)" by (rule rhe_ge)
  then have "(2 ^ 52 :: real) \<le> of_int (round_half_even (x / ?q))"
    by (metis of_int_le_iff of_int_numeral of_int_power)
  then have "2 ^ 52 * ?q \<le> of_int (round_half_even (x / ?q)) * ?q"
    by (simp add: mult_right_mono)
  then show ?thesis using pow2_52 [of "exponent64 x"] by (simp add: nearest64_def)
qed

lemma nearest64_mono_pos:
  assumes "0 < x" and "x \<le> y"
  shows "nearest64 x \<le> nearest64 y"
proof -
  have y: "0 < y" using assms by simp
  have le: "exponent64 x \<le> exponent64 y" using assms by (rule exponent64_mono)
  show ?thesis
  proof (cases "exponent64 x = exponent64 y")
    case True
    let ?q = "pow2 (exponent64 y - 52)"
    have "x / ?q \<le> y / ?q" using assms(2) by (simp add: divide_right_mono)
    then have "round_half_even (x / ?q) \<le> round_half_even (y / ?q)" by (rule rhe_mono)
    then have "of_int (round_half_even (x / ?q)) * ?q \<le> of_int (round_half_even (y / ?q)) * ?q"
      by (simp add: mult_right_mono)
    then show ?thesis by (simp add: nearest64_def True)
  next
    case False
    with le have lt: "exponent64 x + 1 \<le> exponent64 y" by simp
    with exponent64_bounds(3) [OF assms(1)] have "exponent64 y \<noteq> - 1022" by simp
    with exponent64_bounds(2) [OF y] have "pow2 (exponent64 y) \<le> y" by simp
    then have "pow2 (exponent64 y) \<le> nearest64 y" using y by (simp add: nearest64_lower)
    moreover have "nearest64 x \<le> pow2 (exponent64 x + 1)" using assms(1) by (rule nearest64_upper)
    moreover have "pow2 (exponent64 x + 1) \<le> pow2 (exponent64 y)" using lt by (rule pow2_mono)
    ultimately show ?thesis by linarith
  qed
qed

lemma nearest64_mono:
  assumes "0 \<le> x" and "x \<le> y"
  shows "nearest64 x \<le> nearest64 y"
proof (cases "x = 0")
  case True
  with assms show ?thesis by (simp add: nearest64_nonneg)
next
  case False
  with assms show ?thesis by (simp add: nearest64_mono_pos)
qed

lemma nearest64_on_grid:
  assumes "exponent64 v = e" and "v = of_int n * pow2 (e - 52)"
  shows "nearest64 v = v"
proof -
  have "v / pow2 (e - 52) = of_int n" using assms(2) by simp
  then show ?thesis using assms by (simp add: nearest64_def)
qed

lemma nearest64_idem:
  assumes "0 \<le> x"
  shows "nearest64 (nearest64 x) = nearest64 x"
proof (cases "nearest64 x = 0")
  case True
  then show ?thesis by simp
next
  case False
  then have x: "0 < x" using assms by (cases "x = 0") auto
  define e where "e = exponent64 x"
  define n where "n = round_half_even (x / pow2 (e - 52))"
  define v where "v = nearest64 x"
  have v: "v = of_int n * pow2 (e - 52)" by (simp add: v_def n_def e_def nearest64_def)
  have vpos: "0 < v" using False nearest64_nonneg [OF assms] by (simp add: v_def)
  have up: "v \<le> pow2 (e + 1)" using nearest64_upper [OF x] by (simp add: v_def e_def)
  have e: "- 1022 \<le> e" using exponent64_bounds(3) [OF x] by (simp add: e_def)
  show ?thesis
  proof (cases "v = pow2 (e + 1)")
    case True
    have "v < pow2 (e + 1 + 1)"
    proof -
      have "pow2 (e + 1 + 1) = pow2 1 * pow2 (e + 1)"
        using pow2_add [of 1 "e + 1"] by (simp add: add.commute)
      then show ?thesis using True pow2_pos [of "e + 1"] by (simp add: pow2_def)
    qed
    then have ex: "exponent64 v = e + 1"
      using vpos e True by (intro exponent64_eqI) simp_all
    have "v = of_int (2 ^ 52) * pow2 (e + 1 - 52)"
      using True pow2_52 [of "e + 1"] by simp
    with ex have "nearest64 v = v" by (rule nearest64_on_grid)
    then show ?thesis by (simp add: v_def)
  next
    case nt: False
    with up have lt: "v < pow2 (e + 1)" by simp
    have "pow2 e \<le> v \<or> e = - 1022"
      using exponent64_bounds(2) [OF x] nearest64_lower [OF x] by (auto simp add: e_def v_def)
    with vpos lt e have ex: "exponent64 v = e" by (intro exponent64_eqI)
    from ex v have "nearest64 v = v" by (rule nearest64_on_grid)
    then show ?thesis by (simp add: v_def)
  qed
qed

lemma nearest64_eval:
  assumes "0 < x" and "pow2 e \<le> x" and "x < pow2 (e + 1)" and "- 1022 \<le> e"
    and "round_half_even (x / pow2 (e - 52)) = n"
  shows "nearest64 x = of_int n * pow2 (e - 52)"
proof -
  have "exponent64 x = e" using assms(1-4) by (intro exponent64_eqI) simp_all
  with assms(5) show ?thesis by (simp add: nearest64_def)
qed

lemma round64_eval:
  assumes "0 < x" and "pow2 e \<le> x" and "x < pow2 (e + 1)" and "- 1022 \<le> e"
    and "round_half_even (x / pow2 (e - 52)) = n" and "of_int n * pow2 (e - 52) = v"
    and "v < overflow64"
  shows "round64 x = Fin v"
proof -
  have "nearest64 x = v" using nearest64_eval [OF assms(1-5)] assms(6) by simp
  moreover have "0 \<le> nearest64 x" using assms(1) by (simp add: nearest64_nonneg)
  moreover have "0 < overflow64" by (simp add: overflow64_def)
  ultimately show ?thesis using assms(7) by (simp add: round64_def Let_def)
qed

lemma tenth: "round64 (1 / 10) = Fin (3602879701896397 / 36028797018963968)"
  by (rule round64_eval [where e = "- 4" and n = 7205759403792794])
    (simp_all add: eval64)

lemma js_le_simps [simp]:
  "js_le (Fin a) (Fin b) = (a \<le> b)"
  "js_le (Fin a) PInf" "js_le PInf PInf" "\<not> js_le PInf (Fin a)"
  "\<not> js_le NaN y" "\<not> js_le x NaN" "\<not> js_le (Fin a) NInf" "\<not> js_le PInf NInf"
  "js_le NInf (Fin a)" "js_le NInf PInf" "js_le NInf NInf"
  by (cases x; cases y; auto simp add: js_le_def)+

lemma js_le_nonneg_cases:
  assumes "js_le (Fin 0) x"
  obtains u where "x = Fin u" and "0 \<le> u" | "x = PInf"
  using assms by (cases x) simp_all

lemma round64_not_NaN [simp]: "round64 x \<noteq> NaN"
  by (simp add: round64_def Let_def)

lemma overflow64_pos [simp]: "0 < overflow64"
  by (simp add: overflow64_def)

lemma js_gt_PInf [simp]: "\<not> js_gt x PInf"
  by (cases x) simp_all

lemma round64_nonneg_cases:
  assumes "0 \<le> x"
  obtains "round64 x = PInf" and "overflow64 \<le> nearest64 x"
  | "round64 x = Fin (nearest64 x)" and "0 \<le> nearest64 x" and "nearest64 x < overflow64"
proof (cases "overflow64 \<le> nearest64 x")
  case True
  then have "round64 x = PInf" by (simp add: round64_def Let_def)
  with True that(1) show ?thesis by blast
next
  case False
  have n: "0 \<le> nearest64 x" using assms by (rule nearest64_nonneg)
  have "- overflow64 < 0" by simp
  with n have "\<not> nearest64 x \<le> - overflow64" by linarith
  with False have "round64 x = Fin (nearest64 x)" by (simp add: round64_def Let_def)
  with False n that(2) show ?thesis by force
qed

lemma round64_nonneg: "0 \<le> x \<Longrightarrow> js_le (Fin 0) (round64 x)"
  by (erule round64_nonneg_cases) simp_all

lemma round64_mono:
  assumes "0 \<le> x" and "x \<le> y"
  shows "js_le (round64 x) (round64 y)"
proof -
  have y: "0 \<le> y" using assms by simp
  have m: "nearest64 x \<le> nearest64 y" using assms by (rule nearest64_mono)
  show ?thesis
    using m by (rule_tac round64_nonneg_cases [OF assms(1)]; rule_tac round64_nonneg_cases [OF y]) simp_all
qed

lemma round64_idem:
  assumes "0 \<le> x" and "round64 x = Fin v"
  shows "round64 v = Fin v"
proof -
  from assms(1) have v: "v = nearest64 x \<and> nearest64 x < overflow64"
    by (rule round64_nonneg_cases) (use assms(2) in simp_all)
  have i: "nearest64 v = v" using v nearest64_idem [OF assms(1)] by simp
  have n: "0 \<le> v" using v nearest64_nonneg [OF assms(1)] by simp
  have "- overflow64 < 0" by simp
  with n have "\<not> v \<le> - overflow64" by linarith
  with i v show ?thesis by (simp add: round64_def Let_def)
qed

lemma round64_overflow:
  assumes "overflow64 \<le> x"
  shows "round64 x = PInf"
proof -
  have x: "0 < x" using assms overflow64_pos by linarith
  have p: "pow2 1024 = overflow64" by (simp add: pow2_def overflow64_def)
  have "exponent64 overflow64 = 1024"
    by (rule exponent64_eqI) (simp_all add: pow2_def overflow64_def)
  then have "1024 \<le> exponent64 x"
    using exponent64_mono [of overflow64 x] assms by simp
  then have e: "pow2 1024 \<le> pow2 (exponent64 x)" by (rule pow2_mono)
  from \<open>1024 \<le> exponent64 x\<close> exponent64_bounds(2) [OF x]
  have "pow2 (exponent64 x) \<le> x" by auto
  then have "pow2 (exponent64 x) \<le> nearest64 x" using x by (simp add: nearest64_lower)
  with e p have "overflow64 \<le> nearest64 x" by linarith
  then show ?thesis by (simp add: round64_def Let_def)
qed

lemma mul64_mono:
  assumes "0 < c" and "js_le (Fin 0) x" and "js_le x y"
  shows "js_le (mul64 x (Fin c)) (mul64 y (Fin c))"
    and "js_le (Fin 0) (mul64 x (Fin c))"
proof -
  have inf: "mul64 PInf (Fin c) = PInf" using assms(1) by (simp add: mul64_def inf_of_sign_def)
  from assms(2) show "js_le (Fin 0) (mul64 x (Fin c))"
  proof (cases rule: js_le_nonneg_cases)
    case (1 u)
    then show ?thesis using assms(1) by (simp add: mul64_def round64_nonneg)
  next
    case 2
    then show ?thesis by (simp add: inf)
  qed
  from assms(2) show "js_le (mul64 x (Fin c)) (mul64 y (Fin c))"
  proof (cases rule: js_le_nonneg_cases)
    case (1 u)
    show ?thesis
    proof (cases y)
      case (Fin w)
      with 1 assms have "0 \<le> u * c" "u * c \<le> w * c" by simp_all
      then show ?thesis using 1 Fin by (simp add: mul64_def round64_mono)
    next
      case PInf
      then show ?thesis using 1 by (simp add: inf) (simp add: mul64_def js_le_def)
    qed (use assms(3) 1 in simp_all)
  next
    case 2
    with assms(3) have "y = PInf" by (cases y) simp_all
    with 2 show ?thesis by (simp add: inf)
  qed
qed

lemma mul64_nonneg:
  assumes "0 < c" and "js_le (Fin 0) x"
  shows "js_le (Fin 0) (mul64 x (Fin c))"
proof -
  from assms(2) have "js_le x x" by (cases x) simp_all
  with assms show ?thesis by (rule mul64_mono(2))
qed

lemma sub64_mono:
  assumes "js_gt x (Fin c)" and "js_le x y"
  shows "js_le (sub64 x (Fin c)) (sub64 y (Fin c))"
    and "js_le (Fin 0) (sub64 x (Fin c))" and "js_gt y (Fin c)"
proof -
  have s: "js_le (sub64 x (Fin c)) (sub64 y (Fin c)) \<and> js_le (Fin 0) (sub64 x (Fin c))
      \<and> js_gt y (Fin c)"
  proof (cases x)
    case (Fin a)
    with assms(1) have a: "c < a" by simp
    show ?thesis
    proof (cases y)
      case y: (Fin b)
      with Fin assms(2) have "a \<le> b" by simp
      with a have "0 \<le> a - c" "a - c \<le> b - c" "c < b" by simp_all
      then show ?thesis using Fin y by (simp add: sub64_def round64_mono round64_nonneg)
    next
      case PInf
      with Fin a show ?thesis by (simp add: sub64_def round64_nonneg) (simp add: js_le_def)
    qed (use assms(2) Fin in simp_all)
  next
    case PInf
    with assms(2) have "y = PInf" by (cases y) simp_all
    with PInf show ?thesis by (simp add: sub64_def)
  qed (use assms(1) in simp_all)
  then show "js_le (sub64 x (Fin c)) (sub64 y (Fin c))" "js_le (Fin 0) (sub64 x (Fin c))"
    "js_gt y (Fin c)" by simp_all
qed

lemma js_le_trans: "js_le x y \<Longrightarrow> js_le y z \<Longrightarrow> js_le x z"
  by (cases x; cases y; cases z) simp_all

lemma nonneg_double_round64:
  assumes "0 \<le> x"
  shows "nonneg_double (round64 x)"
  using assms
proof (rule round64_nonneg_cases)
  assume "round64 x = PInf"
  then show ?thesis by (simp add: nonneg_double_def)
next
  assume r: "round64 x = Fin (nearest64 x)" and n: "0 \<le> nearest64 x"
  from assms r have "round64 (nearest64 x) = Fin (nearest64 x)" by (rule round64_idem)
  with r n show ?thesis by (simp add: nonneg_double_def)
qed

lemma nonneg_double_cases:
  assumes "nonneg_double x"
  obtains u where "x = Fin u" and "0 \<le> u" and "round64 u = Fin u" | "x = PInf"
  using assms by (cases x) (simp_all add: nonneg_double_def)

lemma nonneg_double_le: "nonneg_double x \<Longrightarrow> js_le (Fin 0) x"
  by (erule nonneg_double_cases) simp_all

lemma add64_ge_left:
  assumes "nonneg_double x" and "js_le (Fin 0) y"
  shows "js_le x (add64 x y)" and "nonneg_double (add64 x y)"
proof -
  have "js_le x (add64 x y) \<and> nonneg_double (add64 x y)"
    using assms(1)
  proof (cases rule: nonneg_double_cases)
    case (1 u)
    from assms(2) show ?thesis
    proof (cases rule: js_le_nonneg_cases)
      case (1 w)
      with \<open>0 \<le> u\<close> have "0 \<le> u" "u \<le> u + w" "0 \<le> u + w" by simp_all
      then have "js_le (round64 u) (round64 (u + w))" "nonneg_double (round64 (u + w))"
        by (simp_all add: round64_mono nonneg_double_round64)
      then show ?thesis using \<open>x = Fin u\<close> \<open>round64 u = Fin u\<close> \<open>y = Fin w\<close>
        by (simp add: add64_def)
    next
      case 2
      then show ?thesis using \<open>x = Fin u\<close> by (simp add: add64_def nonneg_double_def)
    qed
  next
    case 2
    from assms(2) show ?thesis
      by (cases rule: js_le_nonneg_cases) (simp_all add: 2 add64_def nonneg_double_def)
  qed
  then show "js_le x (add64 x y)" "nonneg_double (add64 x y)" by simp_all
qed

lemma occupancyBTU64_nonneg: "js_le (Fin 0) (occupancyBTU64 (Fin oc))"
proof (cases "2 < oc")
  case True
  then have g: "js_gt (Fin oc) (Fin 2)" by simp
  have l: "js_le (Fin oc) (Fin oc)" by simp
  have "js_le (Fin 0) (mul64 (sub64 (Fin oc) (Fin 2)) (Fin 600))"
    using sub64_mono(1,2) [OF g l] by (intro mul64_mono(2)) simp_all
  with True show ?thesis by (simp add: occupancyBTU64_def)
next
  case False
  then show ?thesis by (simp add: occupancyBTU64_def)
qed

lemma heightBTU64_nonneg: "js_le (Fin 0) (heightBTU64 (Fin h))"
proof (cases "8 < h")
  case True
  then have g: "js_gt (Fin h) (Fin 8)" by simp
  have l: "js_le (Fin h) (Fin h)" by simp
  have "js_le (Fin 0) (mul64 (sub64 (Fin h) (Fin 8)) (Fin 1000))"
    using sub64_mono(1,2) [OF g l] by (intro mul64_mono(2)) simp_all
  with True show ?thesis by (simp add: heightBTU64_def)
next
  case False
  then show ?thesis by (simp add: heightBTU64_def)
qed

lemma two_tenths: "round64 (2 / 10) = Fin (3602879701896397 / 18014398509481984)"
  by (rule round64_eval [where e = "- 3" and n = 7205759403792794])
    (simp_all add: eval64)

lemma subtotal_ge_base:
  assumes "0 \<le> a"
  shows "nonneg_double (baseBTU64 (Fin a))"
    and "js_le (baseBTU64 (Fin a))
          (add64 (add64 (baseBTU64 (Fin a)) (occupancyBTU64 (Fin oc))) (heightBTU64 (Fin h)))"
    and "nonneg_double
          (add64 (add64 (baseBTU64 (Fin a)) (occupancyBTU64 (Fin oc))) (heightBTU64 (Fin h)))"
proof -
  show b: "nonneg_double (baseBTU64 (Fin a))"
    using assms by (simp add: baseBTU64_def mul64_def nonneg_double_round64)
  note s1 = add64_ge_left [OF b occupancyBTU64_nonneg [of oc]]
  note s2 = add64_ge_left [OF s1(2) heightBTU64_nonneg [of h]]
  from s1(1) s2(1) show "js_le (baseBTU64 (Fin a))
          (add64 (add64 (baseBTU64 (Fin a)) (occupancyBTU64 (Fin oc))) (heightBTU64 (Fin h)))"
    by (rule js_le_trans)
  from s2(2) show "nonneg_double
          (add64 (add64 (baseBTU64 (Fin a)) (occupancyBTU64 (Fin oc))) (heightBTU64 (Fin h)))" .
qed

lemma empty_text64: "js_or (parseFloat64 []) (Fin 0) = Fin 0"
  by (simp add: parseFloat64_def parseFloat_def StrDecimalLiteral_def js_or_def)

lemma add64_zero:
  assumes "nonneg_double x"
  shows "add64 x (Fin 0) = x"
  using assms by (cases rule: nonneg_double_cases) (simp_all add: add64_def)

text \<open>
  With no occupants, height 0 and the exposure \<^verbatim>\<open>average\<close> the rounded total is
  the rounded base.
\<close>

lemma total_value64_area_only:
  assumes "0 \<le> r"
  shows "total_value64 (Fin r) (Fin 0) (Fin 0) ''average'' = baseBTU64 (Fin r)"
proof -
  have "nonneg_double (baseBTU64 (Fin r))"
    using assms by (simp add: baseBTU64_def mul64_def nonneg_double_round64)
  then show ?thesis
    by (simp add: total_value64_def occupancyBTU64_def heightBTU64_def sunBTU64_def add64_zero)
qed

text \<open>
  The two conversions round the same numeral to the same binary64 value, so they agree
  after rounding too on every text that an input of type number reports.
\<close>

lemma round64_0 [simp]: "round64 0 = Fin 0"
proof -
  have "- overflow64 < 0" by simp
  then have "\<not> 0 \<le> - overflow64" by linarith
  then show ?thesis by (simp add: round64_def Let_def)
qed

lemma number_input_text_conversions64:
  assumes "number_input_text s"
  shows "js_or (rnd (ToNumber s)) (Fin 0) = js_or (parseFloat64 s) (Fin 0)"
proof (cases "s = []")
  case True
  then show ?thesis
    by (simp add: ToNumber_def parseFloat64_def parseFloat_def StrDecimalLiteral_def js_or_def)
next
  case False
  with assms have "valid_float_text s" by (simp add: number_input_text_def)
  then show ?thesis by (simp add: valid_float_text_conversions parseFloat64_def)
qed

subsection \<open>The total\<close>



text \<open>
  C2. The number that \<^verbatim>\<open>calculateBTU\<close> stores is the sum of the four terms and of
  nothing else, and no \<^verbatim>\<open>Math.round\<close> is applied to it. The rounding is in the
  markup: the displayed total is \<^verbatim>\<open>Math.round\<close> of the stored one, and the four
  displayed numbers are \<^verbatim>\<open>Math.round\<close> of the four expressions of the breakdown, each
  on its own. When the three text fields hold what an input of type number reports, the
  stored total is the sum of these four expressions before they are rounded.
\<close>

theorem stored_total_is_sum_of_breakdown:
  "totalBTU (calculateBTU st) =
     js_add (js_add (js_add (baseBTU (areaVal st)) (occupancyBTU (occupantsVal st)))
                    (heightBTU (heightVal st)))
            (sunBTU (sunExposure st) (baseBTU (areaVal st)))
   \<and> shown_total (calculateBTU st) = Math_round (totalBTU (calculateBTU st))
   \<and> shown_breakdown (calculateBTU st) =
         (Math_round (render_base st), Math_round (render_occupancy st),
          Math_round (render_height st), Math_round (render_climate st))
   \<and> (number_input_text (area st) \<and> number_input_text (occupants st)
        \<and> number_input_text (height st) \<longrightarrow>
      totalBTU (calculateBTU st) =
        js_add (js_add (js_add (render_base st) (render_occupancy st)) (render_height st))
               (render_climate st))"
proof (intro conjI impI)
  show "totalBTU (calculateBTU st) =
     js_add (js_add (js_add (baseBTU (areaVal st)) (occupancyBTU (occupantsVal st)))
                    (heightBTU (heightVal st)))
            (sunBTU (sunExposure st) (baseBTU (areaVal st)))"
    by (simp add: calculateBTU_def total_value_def)
  show "shown_total (calculateBTU st) = Math_round (totalBTU (calculateBTU st))"
    by (simp add: shown_total_def)
  show "shown_breakdown (calculateBTU st) =
         (Math_round (render_base st), Math_round (render_occupancy st),
          Math_round (render_height st), Math_round (render_climate st))"
    by (simp add: shown_breakdown_def render_unchanged)
  assume "number_input_text (area st) \<and> number_input_text (occupants st)
        \<and> number_input_text (height st)"
  then show "totalBTU (calculateBTU st) =
        js_add (js_add (js_add (render_base st) (render_occupancy st)) (render_height st))
               (render_climate st)"
    by (simp add: calculateBTU_def total_value_def render_base_eq render_occupancy_eq
        render_height_eq render_climate_eq number_input_text_conversions parsed_defs)
qed

theorem stored_total_is_sum_of_breakdown_witness:
  "(let st = \<lparr>area = ''500'', occupants = ''5'', height = ''10'', sunExposure = ''sunny'',
               totalBTU = Fin 0\<rparr>
    in number_input_text (area st) \<and> number_input_text (occupants st)
       \<and> number_input_text (height st)
       \<and> render_base st = Fin 12500 \<and> render_occupancy st = Fin 1800
       \<and> render_height st = Fin 2000 \<and> render_climate st = Fin 1250
       \<and> totalBTU (calculateBTU st) = Fin 17550
       \<and> totalBTU (calculateBTU st) =
            js_add (js_add (js_add (render_base st) (render_occupancy st)) (render_height st))
                   (render_climate st))"
proof -
  have t: "number_input_text ''500''" "number_input_text ''5''" "number_input_text ''10''"
    by (simp_all add: number_input_text_def valid_float_text_def valid_unsigned_def
        valid_exponent_def is_digit_def)
  have v: "ToNumber ''500'' = Fin 500" "ToNumber ''5'' = Fin 5" "ToNumber ''10'' = Fin 10"
    by (simp_all add: text_defs)
  have r: "render_base \<lparr>area = ''500'', occupants = ''5'', height = ''10'', sunExposure = ''sunny'',
               totalBTU = Fin 0\<rparr> = Fin 12500"
    "render_occupancy \<lparr>area = ''500'', occupants = ''5'', height = ''10'', sunExposure = ''sunny'',
               totalBTU = Fin 0\<rparr> = Fin 1800"
    "render_height \<lparr>area = ''500'', occupants = ''5'', height = ''10'', sunExposure = ''sunny'',
               totalBTU = Fin 0\<rparr> = Fin 2000"
    "render_climate \<lparr>area = ''500'', occupants = ''5'', height = ''10'', sunExposure = ''sunny'',
               totalBTU = Fin 0\<rparr> = Fin 1250"
    by (simp_all add: render_base_def render_occupancy_def render_height_def render_climate_def
        v js_or_def)
  show ?thesis
    using t r stored_total_is_sum_of_breakdown
      [of "\<lparr>area = ''500'', occupants = ''5'', height = ''10'', sunExposure = ''sunny'',
           totalBTU = Fin 0\<rparr>", THEN conjunct2, THEN conjunct2, THEN conjunct2]
    by (simp add: Let_def)
qed

subsection \<open>An exposure outside the selector's options\<close>

text \<open>
  C3, as stated: an exposure outside the four options makes the estimator fail. It does
  not: with the exposure \<^verbatim>\<open>cloudy\<close> the call returns, the climate term is 0 and the
  total 5000 is stored.
\<close>

theorem unknown_exposure_not_rejected:
  "''cloudy'' \<notin> set exposure_options
   \<and> sunBTU ''cloudy'' (Fin 5000) = Fin 0
   \<and> calculateBTU \<lparr>area = ''200'', occupants = ''2'', height = ''8'', sunExposure = ''cloudy'',
                     totalBTU = Fin 0\<rparr>
     = \<lparr>area = ''200'', occupants = ''2'', height = ''8'', sunExposure = ''cloudy'',
        totalBTU = Fin 5000\<rparr>"
  by (simp add: exposure_options_def calculateBTU_def parsed_defs js_or_def term_defs text_defs)

text \<open>
  C3, amended: an exposure outside the four options is treated as \<^verbatim>\<open>average\<close>. The
  climate term is 0 and the stored total is the one of \<^verbatim>\<open>average\<close>.
\<close>

theorem unknown_exposure_as_average:
  "e \<notin> set exposure_options \<Longrightarrow>
   sunBTU e b = Fin 0
   \<and> total_value a oc h e = total_value a oc h ''average''
   \<and> totalBTU (calculateBTU (st\<lparr>sunExposure := e\<rparr>))
       = totalBTU (calculateBTU (st\<lparr>sunExposure := ''average''\<rparr>))"
  by (simp add: exposure_options_def calculateBTU_def parsed_defs total_value_def sunBTU_def)

theorem unknown_exposure_as_average_witness:
  "''cloudy'' \<notin> set exposure_options
   \<and> sunBTU ''cloudy'' (Fin 5000) = Fin 0
   \<and> total_value (Fin 200) (Fin 2) (Fin 8) ''cloudy'' = total_value (Fin 200) (Fin 2) (Fin 8) ''average''
   \<and> totalBTU (calculateBTU (initial\<lparr>sunExposure := ''cloudy''\<rparr>))
       = totalBTU (calculateBTU (initial\<lparr>sunExposure := ''average''\<rparr>))"
proof -
  have e: "''cloudy'' \<notin> set exposure_options" by (simp add: exposure_options_def)
  show ?thesis
    using e unknown_exposure_as_average [OF e, of "Fin 5000" "Fin 200" "Fin 2" "Fin 8" initial]
    by simp
qed

subsection \<open>The three adjustments\<close>

text \<open>
  C4, as stated: above 2 a larger count gives a strictly larger occupancy term. It does
  not: the texts \<^verbatim>\<open>18014398509481992\<close> and \<^verbatim>\<open>18014398509481996\<close> are read as these
  two numbers, both above 2, and for both the difference with 2 rounds to
  18014398509481992, so that the two terms are the same.
\<close>

theorem occupancy_not_strictly_increasing:
  "number_input_text ''18014398509481992'' \<and> number_input_text ''18014398509481996''
   \<and> parseFloat64 ''18014398509481992'' = Fin 18014398509481992
   \<and> parseFloat64 ''18014398509481996'' = Fin 18014398509481996
   \<and> js_gt (Fin 18014398509481992) (Fin 2)
   \<and> js_lt (Fin 18014398509481992) (Fin 18014398509481996)
   \<and> occupancyBTU64 (Fin 18014398509481992) = occupancyBTU64 (Fin 18014398509481996)
   \<and> \<not> js_lt (occupancyBTU64 (Fin 18014398509481992)) (occupancyBTU64 (Fin 18014398509481996))"
proof -
  have t: "number_input_text ''18014398509481992''" "number_input_text ''18014398509481996''"
    by (simp_all add: number_text_defs)
  have p1: "parseFloat ''18014398509481992'' = Fin 18014398509481992"
    and p2: "parseFloat ''18014398509481996'' = Fin 18014398509481996"
    by (simp_all add: text_defs)
  have r1: "round64 18014398509481992 = Fin 18014398509481992"
    by (rule round64_eval [where e = 54 and n = 4503599627370498]) (simp_all add: eval64)
  have r2: "round64 18014398509481996 = Fin 18014398509481996"
    by (rule round64_eval [where e = 54 and n = 4503599627370499]) (simp_all add: eval64)
  have s1: "sub64 (Fin 18014398509481992) (Fin 2) = Fin 18014398509481992"
    unfolding sub64_def js_sub.simps rnd.simps
    by (rule round64_eval [where e = 54 and n = 4503599627370498]) (simp_all add: eval64)
  have s2: "sub64 (Fin 18014398509481996) (Fin 2) = Fin 18014398509481992"
    unfolding sub64_def js_sub.simps rnd.simps
    by (rule round64_eval [where e = 54 and n = 4503599627370498]) (simp_all add: eval64)
  have eq: "occupancyBTU64 (Fin 18014398509481992) = occupancyBTU64 (Fin 18014398509481996)"
    by (simp add: occupancyBTU64_def s1 s2)
  have irr: "\<not> js_lt x x" for x by (cases x) (simp_all add: js_lt_def)
  show ?thesis
    using t eq irr [of "occupancyBTU64 (Fin 18014398509481996)"]
    by (simp add: parseFloat64_def p1 p2 r1 r2 js_lt_def)
qed

text \<open>
  C4, amended: the occupancy term is 0 for every count up to and including 2; for every
  count above 2 it is the count less 2, times 600, each of the two operations rounded;
  and above 2 a larger count never gives a smaller term.
\<close>

theorem occupancy_nondecreasing:
  "(a \<le> 2 \<longrightarrow> occupancyBTU64 (Fin a) = Fin 0)
   \<and> (2 < b \<longrightarrow> occupancyBTU64 (Fin b) = mul64 (round64 (b - 2)) (Fin 600))
   \<and> (js_gt x (Fin 2) \<and> js_le x y \<longrightarrow> js_le (occupancyBTU64 x) (occupancyBTU64 y))"
proof (intro conjI impI)
  show "occupancyBTU64 (Fin a) = Fin 0" if "a \<le> 2"
    using that by (simp add: occupancyBTU64_def)
  show "occupancyBTU64 (Fin b) = mul64 (round64 (b - 2)) (Fin 600)" if "2 < b"
    using that by (simp add: occupancyBTU64_def sub64_def)
  show "js_le (occupancyBTU64 x) (occupancyBTU64 y)" if h: "js_gt x (Fin 2) \<and> js_le x y"
  proof -
    from h have g: "js_gt x (Fin 2)" and l: "js_le x y" by simp_all
    have "js_le (mul64 (sub64 x (Fin 2)) (Fin 600)) (mul64 (sub64 y (Fin 2)) (Fin 600))"
      using sub64_mono(1,2) [OF g l] by (intro mul64_mono(1)) simp_all
    then show ?thesis using g sub64_mono(3) [OF g l] by (simp add: occupancyBTU64_def)
  qed
qed

theorem occupancy_nondecreasing_witness:
  "(2::real) \<le> 2 \<and> occupancyBTU64 (Fin 2) = Fin 0
   \<and> (2::real) < 5 \<and> occupancyBTU64 (Fin 5) = Fin 1800
   \<and> js_gt (Fin 3) (Fin 2) \<and> js_le (Fin 3) (Fin 4)
   \<and> js_le (occupancyBTU64 (Fin 3)) (occupancyBTU64 (Fin 4))"
proof -
  have s: "round64 3 = Fin 3"
    by (rule round64_eval [where e = 1 and n = 6755399441055744]) (simp_all add: eval64)
  have m: "mul64 (Fin 3) (Fin 600) = Fin 1800"
    unfolding mul64_def js_mul.simps rnd.simps
    by (rule round64_eval [where e = 10 and n = 7916483719987200]) (simp_all add: eval64)
  from occupancy_nondecreasing [of 2 5 "Fin 3" "Fin 4"]
  have "occupancyBTU64 (Fin 2) = Fin 0"
    and "occupancyBTU64 (Fin 5) = mul64 (round64 (5 - 2)) (Fin 600)"
    and "js_le (occupancyBTU64 (Fin 3)) (occupancyBTU64 (Fin 4))"
    by simp_all
  then show ?thesis by (simp add: s m)
qed




subsection \<open>The sign of the total\<close>




text \<open>
  With exact operations the total is at least nine tenths of the base; the rounded total
  can be below, as the area 100.02 shows.
\<close>

lemma total_lower_bound_exact:
  assumes "0 \<le> a" and "0 \<le> oc" and "0 \<le> h" and "e \<in> set exposure_options"
  shows "\<exists>t. total_value (Fin a) (Fin oc) (Fin h) e = Fin t \<and> 0 \<le> t \<and> 9 / 10 * (a * 25) \<le> t"
proof -
  let ?o = "if 2 < oc then (oc - 2) * 600 else 0"
  let ?h = "if 8 < h then (h - 8) * 1000 else 0"
  let ?s = "if e = ''shady'' then - (a * 25 * (1 / 10)) else if e = ''sunny'' then a * 25 * (1 / 10)
             else if e = ''very_sunny'' then a * 25 * (2 / 10) else 0"
  have o: "0 \<le> ?o" by simp
  have h: "0 \<le> ?h" by simp
  have s: "- (a * 25 * (1 / 10)) \<le> ?s" using assms(1) by simp
  have low: "9 / 10 * (a * 25) \<le> a * 25 + ?o + ?h + ?s"
    using o h s by linarith
  moreover have "0 \<le> 9 / 10 * (a * 25)" using assms(1) by simp
  ultimately have "0 \<le> a * 25 + ?o + ?h + ?s" by linarith
  with low show ?thesis
    unfolding total_value_Fin by blast
qed

subsection \<open>What the function reads and writes\<close>

text \<open>
  The stored total and the four terms are determined by the four input cells, whatever
  the cell of the total holds, and a call after a call changes nothing.
\<close>

lemma calculateBTU_inputs_only:
  assumes "area s = area s'" and "occupants s = occupants s'" and "height s = height s'"
    and "sunExposure s = sunExposure s'"
  shows "totalBTU (calculateBTU s) = totalBTU (calculateBTU s')
     \<and> baseBTU (areaVal s) = baseBTU (areaVal s')
     \<and> occupancyBTU (occupantsVal s) = occupancyBTU (occupantsVal s')
     \<and> heightBTU (heightVal s) = heightBTU (heightVal s')
     \<and> sunBTU (sunExposure s) (baseBTU (areaVal s)) = sunBTU (sunExposure s') (baseBTU (areaVal s'))
     \<and> calculateBTU (calculateBTU s) = calculateBTU s"
  using assms by (simp add: calculateBTU_def parsed_defs)

subsection \<open>Texts that are not numbers\<close>

text \<open>
  C8. A text that a field reports and that is not a number is the empty text; more
  generally a text may have no leading numeral. In the field of the area, the occupants
  or the height every such text is taken as 0: the stored total is the one for the
  text \<^verbatim>\<open>0\<close> in that field.
\<close>

theorem empty_or_non_numeric_is_zero:
  "(number_input_text s \<and> \<not> valid_float_text s) \<or> no_leading_numeral s \<longrightarrow>
      areaVal (st\<lparr>area := s\<rparr>) = Fin 0
    \<and> occupantsVal (st\<lparr>occupants := s\<rparr>) = Fin 0
    \<and> heightVal (st\<lparr>height := s\<rparr>) = Fin 0
    \<and> totalBTU (calculateBTU (st\<lparr>area := s\<rparr>)) = totalBTU (calculateBTU (st\<lparr>area := ''0''\<rparr>))
    \<and> totalBTU (calculateBTU (st\<lparr>occupants := s\<rparr>))
        = totalBTU (calculateBTU (st\<lparr>occupants := ''0''\<rparr>))
    \<and> totalBTU (calculateBTU (st\<lparr>height := s\<rparr>))
        = totalBTU (calculateBTU (st\<lparr>height := ''0''\<rparr>))"
proof
  assume h: "(number_input_text s \<and> \<not> valid_float_text s) \<or> no_leading_numeral s"
  have "no_leading_numeral s"
  proof (rule disjE [OF h])
    assume "number_input_text s \<and> \<not> valid_float_text s"
    then have "s = []" by (auto simp add: number_input_text_def)
    then show ?thesis by (simp add: no_leading_numeral_def starts_numeral_def)
  qed
  then have nan: "parseFloat s = NaN" by (simp add: parseFloat_NaN_iff)
  have zero: "parseFloat ''0'' = Fin 0" by (simp add: text_defs)
  show "areaVal (st\<lparr>area := s\<rparr>) = Fin 0
    \<and> occupantsVal (st\<lparr>occupants := s\<rparr>) = Fin 0
    \<and> heightVal (st\<lparr>height := s\<rparr>) = Fin 0
    \<and> totalBTU (calculateBTU (st\<lparr>area := s\<rparr>)) = totalBTU (calculateBTU (st\<lparr>area := ''0''\<rparr>))
    \<and> totalBTU (calculateBTU (st\<lparr>occupants := s\<rparr>))
        = totalBTU (calculateBTU (st\<lparr>occupants := ''0''\<rparr>))
    \<and> totalBTU (calculateBTU (st\<lparr>height := s\<rparr>))
        = totalBTU (calculateBTU (st\<lparr>height := ''0''\<rparr>))"
    using nan zero by (simp add: calculateBTU_def parsed_defs js_or_def)
qed

theorem empty_or_non_numeric_is_zero_witness:
  "number_input_text [] \<and> \<not> valid_float_text []
   \<and> areaVal (initial\<lparr>sunExposure := ''sunny'', occupants := ''5'', area := []\<rparr>) = Fin 0
   \<and> totalBTU (calculateBTU (initial\<lparr>sunExposure := ''sunny'', occupants := ''5'', area := []\<rparr>))
      = totalBTU (calculateBTU (initial\<lparr>sunExposure := ''sunny'', occupants := ''5'', area := ''0''\<rparr>))
   \<and> totalBTU (calculateBTU (initial\<lparr>sunExposure := ''sunny'', occupants := ''5'', area := ''0''\<rparr>))
      = Fin 1800
   \<and> no_leading_numeral ''abc''
   \<and> areaVal (initial\<lparr>area := ''abc''\<rparr>) = Fin 0"
proof -
  have n: "number_input_text [] \<and> \<not> valid_float_text []"
    by (simp add: number_input_text_def valid_float_text_def)
  have a: "no_leading_numeral ''abc''"
    by (simp add: no_leading_numeral_def starts_numeral_def StrWhiteSpaceChar_def is_digit_def)
  have z: "totalBTU (calculateBTU (initial\<lparr>sunExposure := ''sunny'', occupants := ''5'', area := ''0''\<rparr>))
      = Fin 1800"
    by (simp add: initial_def calculateBTU_def parsed_defs js_or_def term_defs text_defs)
  show ?thesis
    using n a z
      empty_or_non_numeric_is_zero [of "[]" "initial\<lparr>sunExposure := ''sunny'', occupants := ''5''\<rparr>"]
      empty_or_non_numeric_is_zero [of "''abc''" initial]
    by simp
qed

text \<open>
  A text such as \<^verbatim>\<open>5px\<close> is none that an input of type number reports. On it the
  two conversions differ: \<^verbatim>\<open>parseFloat\<close> reads the leading numeral, \<^verbatim>\<open>ToNumber\<close>
  gives NaN.
\<close>

lemma text_outside_number_input:
  "\<not> number_input_text ''5px'' \<and> parseFloat ''5px'' = Fin 5 \<and> ToNumber ''5px'' = NaN"
  by (simp add: number_text_defs text_defs)

subsection \<open>The breakdown of the markup and the terms of the estimator\<close>

text \<open>
  C7. The markup computes the breakdown by expressions of its own. For every state whose
  three text fields hold what an input of type number reports (the empty text or a valid
  floating-point number) each of these expressions equals the term of the estimator, so
  that the displayed breakdown is the rounded terms of the estimator.
\<close>

theorem breakdown_agrees_on_number_inputs:
  assumes "number_input_text (area st)" and "number_input_text (occupants st)"
    and "number_input_text (height st)"
  shows "render_base st = baseBTU (areaVal st)
     \<and> render_occupancy st = occupancyBTU (occupantsVal st)
     \<and> render_height st = heightBTU (heightVal st)
     \<and> render_climate st = sunBTU (sunExposure st) (baseBTU (areaVal st))
     \<and> shown_breakdown st =
         (Math_round (baseBTU (areaVal st)), Math_round (occupancyBTU (occupantsVal st)),
          Math_round (heightBTU (heightVal st)),
          Math_round (sunBTU (sunExposure st) (baseBTU (areaVal st))))"
  using assms
  by (simp add: shown_breakdown_def render_base_eq render_occupancy_eq render_height_eq
      render_climate_eq number_input_text_conversions parsed_defs)

theorem breakdown_agrees_on_number_inputs_witness:
  "(let st = \<lparr>area = ''500'', occupants = ''5'', height = ''10'', sunExposure = ''sunny'',
               totalBTU = Fin 0\<rparr>
    in number_input_text (area st) \<and> number_input_text (occupants st)
       \<and> number_input_text (height st)
       \<and> render_base st = Fin 12500 \<and> baseBTU (areaVal st) = Fin 12500
       \<and> render_occupancy st = Fin 1800 \<and> occupancyBTU (occupantsVal st) = Fin 1800
       \<and> render_height st = Fin 2000 \<and> heightBTU (heightVal st) = Fin 2000
       \<and> render_climate st = Fin 1250
       \<and> sunBTU (sunExposure st) (baseBTU (areaVal st)) = Fin 1250)"
proof -
  have t: "number_input_text ''500''" "number_input_text ''5''" "number_input_text ''10''"
    by (simp_all add: number_input_text_def valid_float_text_def valid_unsigned_def
        valid_exponent_def is_digit_def)
  have v: "parseFloat ''500'' = Fin 500" "parseFloat ''5'' = Fin 5" "parseFloat ''10'' = Fin 10"
    by (simp_all add: text_defs)
  show ?thesis
    using t v breakdown_agrees_on_number_inputs
      [of "\<lparr>area = ''500'', occupants = ''5'', height = ''10'', sunExposure = ''sunny'',
           totalBTU = Fin 0\<rparr>"]
    by (simp add: parsed_defs js_or_def term_defs)
qed

end
